theory Spec2Isabelle
  imports Main "HOL-Library.Word"
begin

unbundle bit_operations_syntax

section \<open>Bytes, machine integers and faults\<close>

text \<open>
  A \<open>char\<close> of the source is an 8-bit word, a \<open>Slice\<close> or \<open>std::string\<close> used as a value
  is the list of its bytes, \<open>uint64_t\<close> and \<open>SequenceNumber\<close> are 64-bit words (shifts
  drop the bits that leave the word).  \<open>size_t\<close> values are natural numbers; where the
  source subtracts two sizes without a guard, the wrap-around of the unsigned
  subtraction is written out in \<open>size_sub\<close>.

  A function of the source that can trip an \<open>assert\<close> or read outside a span returns
  \<open>fault + 'a\<close>: \<open>Inl AssertionFailed\<close> is the failing branch of an \<open>assert\<close>,
  \<open>Inl OutOfBounds\<close> a read or write outside the bytes a pointer may reach.
\<close>

type_synonym byte = "8 word"
type_synonym bytes = "byte list"
type_synonym uint64_t = "64 word"
type_synonym SequenceNumber = "64 word"
type_synonym ValueType = "8 word"

datatype fault = AssertionFailed | OutOfBounds

text \<open>Sequencing: the first fault ends the call.\<close>

fun and_then :: "fault + 'a \<Rightarrow> ('a \<Rightarrow> fault + 'b) \<Rightarrow> fault + 'b" where
  "and_then (Inl e) f = Inl e"
| "and_then (Inr x) f = f x"

definition size_sub :: "nat \<Rightarrow> nat \<Rightarrow> nat" where
  "size_sub a b = (if b \<le> a then a - b else a + 2 ^ 64 - b)"

text \<open>Reading \<open>n\<close> bytes at offset \<open>off\<close> of a span; reading no byte touches nothing.\<close>

definition read_at :: "bytes \<Rightarrow> nat \<Rightarrow> nat \<Rightarrow> fault + bytes" where
  "read_at span off n =
     (if n = 0 then Inr []
      else if off + n \<le> length span then Inr (take n (drop off span))
      else Inl OutOfBounds)"

text \<open>
  Modelled from the spec: \<open>EncodeFixed64\<close> and \<open>DecodeFixed64\<close> live in util/coding.h,
  which is not among the sources.  The footer is the fixed-width 64-bit integer
  \<open>(sequence_number << 8) | tag_byte\<close> whose trailing-in-value, first-in-memory byte is
  the tag: least significant byte first.
\<close>

definition EncodeFixed64 :: "uint64_t \<Rightarrow> bytes" where
  "EncodeFixed64 v =
     [ucast v, ucast (drop_bit 8 v), ucast (drop_bit 16 v), ucast (drop_bit 24 v),
      ucast (drop_bit 32 v), ucast (drop_bit 40 v), ucast (drop_bit 48 v),
      ucast (drop_bit 56 v)]"

definition DecodeFixed64 :: "bytes \<Rightarrow> uint64_t" where
  "DecodeFixed64 p =
     ucast (p ! 0) OR push_bit 8 (ucast (p ! 1)) OR push_bit 16 (ucast (p ! 2)) OR
     push_bit 24 (ucast (p ! 3)) OR push_bit 32 (ucast (p ! 4)) OR
     push_bit 40 (ucast (p ! 5)) OR push_bit 48 (ucast (p ! 6)) OR
     push_bit 56 (ucast (p ! 7))"

text \<open>\<open>DecodeFixed64(data + off)\<close> on a span: the eight bytes must lie inside it.\<close>

definition DecodeFixed64_at :: "bytes \<Rightarrow> nat \<Rightarrow> fault + uint64_t" where
  "DecodeFixed64_at span off =
     and_then (read_at span off 8) (\<lambda>p. Inr (DecodeFixed64 p))"

section \<open>Value types and the footer\<close>

definition kTypeDeletion :: ValueType where "kTypeDeletion = 0x0"
definition kTypeValue :: ValueType where "kTypeValue = 0x1"
definition kTypeMerge :: ValueType where "kTypeMerge = 0x2"
definition kTypeSingleDeletion :: ValueType where "kTypeSingleDeletion = 0x7"
definition kTypeRangeDeletion :: ValueType where "kTypeRangeDeletion = 0xF"
definition kTypeDeletionWithTimestamp :: ValueType where "kTypeDeletionWithTimestamp = 0x14"
definition kTypeWideColumnEntity :: ValueType where "kTypeWideColumnEntity = 0x16"
definition kTypeBlobIndex :: ValueType where "kTypeBlobIndex = 0x18"
definition kTypeMaxValid :: ValueType where "kTypeMaxValid = 0x19"
definition kMaxValue :: ValueType where "kMaxValue = 0x7F"

definition IsValueType :: "ValueType \<Rightarrow> bool" where
  "IsValueType t =
     (t \<le> kTypeMerge \<or> kTypeSingleDeletion = t \<or> kTypeBlobIndex = t \<or>
      kTypeDeletionWithTimestamp = t \<or> kTypeWideColumnEntity = t)"

definition IsExtendedValueType :: "ValueType \<Rightarrow> bool" where
  "IsExtendedValueType t = (IsValueType t \<or> t = kTypeRangeDeletion \<or> t = kTypeMaxValid)"

definition kMaxSequenceNumber :: SequenceNumber where
  "kMaxSequenceNumber = push_bit 56 1 - 1"

definition kDisableGlobalSequenceNumber :: SequenceNumber where
  "kDisableGlobalSequenceNumber = 0xFFFFFFFFFFFFFFFF"

definition kNumInternalBytes :: nat where
  "kNumInternalBytes = 8"

record ParsedInternalKey =
  user_key :: bytes
  sequence :: SequenceNumber
  type :: ValueType

definition PackSequenceAndType :: "uint64_t \<Rightarrow> ValueType \<Rightarrow> fault + uint64_t" where
  "PackSequenceAndType seq t =
     (if \<not> seq \<le> kMaxSequenceNumber then Inl AssertionFailed
      else if \<not> (IsExtendedValueType t \<or> t = kTypeMaxValid) then Inl AssertionFailed
      else Inr (push_bit 8 seq OR ucast t))"

text \<open>The two out-parameters \<open>*seq\<close> and \<open>*t\<close> are returned as a pair.\<close>

definition UnPackSequenceAndType :: "uint64_t \<Rightarrow> uint64_t \<times> ValueType" where
  "UnPackSequenceAndType packed = (drop_bit 8 packed, ucast (packed AND 0xff))"

section \<open>The augmented-key codec\<close>

text \<open>
  Modelled from the spec: \<open>AppendInternalKey\<close>, \<open>AppendInternalKeyWithDifferentTimestamp\<close>
  and \<open>AppendInternalKeyFooter\<close> are declared in db/dbformat.h and defined in
  db/dbformat.cc, which is not among the sources.  The header documents their output:
  \<open><user_key | seqno + type>\<close>, \<open><user_provided_key | ts | seqno + type>\<close> (the
  original timestamp, of the width of \<open>ts\<close>, replaced) and \<open><user_key | seqno + type>\<close>
  after a buffer that already holds the user key; the footer is
  \<open>PackSequenceAndType\<close> as a fixed 64-bit integer.  The \<open>std::string* result\<close> that is
  appended to is passed in and returned.
\<close>

definition AppendInternalKey :: "bytes \<Rightarrow> ParsedInternalKey \<Rightarrow> fault + bytes" where
  "AppendInternalKey result key =
     and_then (PackSequenceAndType (sequence key) (type key))
       (\<lambda>packed. Inr (result @ user_key key @ EncodeFixed64 packed))"

definition AppendInternalKeyWithDifferentTimestamp ::
    "bytes \<Rightarrow> ParsedInternalKey \<Rightarrow> bytes \<Rightarrow> fault + bytes" where
  "AppendInternalKeyWithDifferentTimestamp result key ts =
     (if \<not> length ts \<le> length (user_key key) then Inl AssertionFailed
      else and_then (PackSequenceAndType (sequence key) (type key))
        (\<lambda>packed.
          Inr (result @ take (length (user_key key) - length ts) (user_key key) @ ts @
               EncodeFixed64 packed)))"

definition AppendInternalKeyFooter :: "bytes \<Rightarrow> SequenceNumber \<Rightarrow> ValueType \<Rightarrow> fault + bytes" where
  "AppendInternalKeyFooter result s t =
     and_then (PackSequenceAndType s t) (\<lambda>packed. Inr (result @ EncodeFixed64 packed))"

text \<open>
  Modelled from the spec: \<open>PadInternalKeyWithMinTimestamp\<close> and
  \<open>StripTimestampFromInternalKey\<close> are defined in db/dbformat.cc as well.  The first
  turns \<open><user_provided_key | seqno + type>\<close> into
  \<open><user_provided_key | min_ts | seqno + type>\<close>, the second removes the timestamp of
  width \<open>ts_sz\<close> again.  Both are given here for keys that are long enough.
\<close>

definition PadInternalKeyWithMinTimestamp :: "bytes \<Rightarrow> nat \<Rightarrow> bytes" where
  "PadInternalKeyWithMinTimestamp key ts_sz =
     take (length key - kNumInternalBytes) key @ replicate ts_sz 0 @
     drop (length key - kNumInternalBytes) key"

definition StripTimestampFromInternalKey :: "bytes \<Rightarrow> nat \<Rightarrow> bytes" where
  "StripTimestampFromInternalKey key ts_sz =
     take (length key - kNumInternalBytes - ts_sz) key @
     drop (length key - kNumInternalBytes) key"

definition ExtractUserKey :: "bytes \<Rightarrow> fault + bytes" where
  "ExtractUserKey internal_key =
     (if \<not> length internal_key \<ge> kNumInternalBytes then Inl AssertionFailed
      else Inr (take (length internal_key - kNumInternalBytes) internal_key))"

definition ExtractInternalKeyFooter :: "bytes \<Rightarrow> fault + uint64_t" where
  "ExtractInternalKeyFooter internal_key =
     (if \<not> length internal_key \<ge> kNumInternalBytes then Inl AssertionFailed
      else let n = length internal_key
           in DecodeFixed64_at internal_key (n - kNumInternalBytes))"

definition ExtractValueType :: "bytes \<Rightarrow> fault + ValueType" where
  "ExtractValueType internal_key =
     and_then (ExtractInternalKeyFooter internal_key) (\<lambda>num. Inr (ucast (num AND 0xff)))"

text \<open>
  \<open>Status\<close>: \<open>OK\<close> or \<open>Corruption\<close> with the fixed part of its message (the size and the
  dump of the key that the source appends are left out).  \<open>ParseInternalKey\<close> writes
  through \<open>result\<close>; the model takes the record and returns it with the status.  The
  \<open>log_err_key\<close> flag only selects how the dump is printed.

  \<open>ParseInternalKey\<close> is the function that classifies bytes nobody has checked, so
  what its \<open>assert\<close> does depends on the build: \<open>NDEBUG\<close> is \<open>True\<close> for a build that
  compiles assertions out and \<open>False\<close> for a build that keeps them.  Everywhere else a
  failing \<open>assert\<close> is a fault, and the facts proved there assume what the assertions
  demand, so they hold for either build.
\<close>

datatype Status = OK | Corruption string

definition ParseInternalKey ::
    "bool \<Rightarrow> bytes \<Rightarrow> ParsedInternalKey \<Rightarrow> bool \<Rightarrow>
     fault + (Status \<times> ParsedInternalKey)" where
  "ParseInternalKey NDEBUG internal_key result log_err_key =
     (let n = length internal_key in
      if n < kNumInternalBytes
      then Inr (Corruption ''Corrupted Key: Internal Key too small. Size='', result)
      else and_then (DecodeFixed64_at internal_key (n - kNumInternalBytes))
        (\<lambda>num.
          let c = (ucast (num AND 0xff) :: byte);
              result1 = result\<lparr>sequence := drop_bit 8 num\<rparr>;
              result2 = result1\<lparr>type := c\<rparr>
          in if \<not> NDEBUG \<and> \<not> type result2 \<le> kMaxValue then Inl AssertionFailed
             else let result3 = result2\<lparr>user_key := take (n - kNumInternalBytes) internal_key\<rparr>
                  in if IsExtendedValueType (type result3) then Inr (OK, result3)
                     else Inr (Corruption ''Corrupted Key'', result3)))"

text \<open>\<open>UpdateInternalKey\<close> on a \<open>std::string\<close>: the footer is overwritten in place.\<close>

definition write_at :: "bytes \<Rightarrow> nat \<Rightarrow> bytes \<Rightarrow> fault + bytes" where
  "write_at buf off src =
     (if src = [] then Inr buf
      else if off + length src \<le> length buf
      then Inr (take off buf @ src @ drop (off + length src) buf)
      else Inl OutOfBounds)"

definition UpdateInternalKey :: "bytes \<Rightarrow> uint64_t \<Rightarrow> ValueType \<Rightarrow> fault + bytes" where
  "UpdateInternalKey ikey seq t =
     (let ikey_sz = length ikey in
      if \<not> ikey_sz \<ge> kNumInternalBytes then Inl AssertionFailed
      else let newval = push_bit 8 seq OR ucast t
           in write_at ikey (ikey_sz - kNumInternalBytes) (EncodeFixed64 newval))"

section \<open>The comparator\<close>

text \<open>
  The wrapped user comparator is external to the module; it is a field of the
  comparator, a three-way comparison of two user keys.  A name cannot end in an
  underscore here, so the members \<open>user_comparator_\<close>, \<open>rep_\<close>, \<open>buf_\<close>, ... are
  written with a prime after the underscore.  An \<open>int\<close> of the source is an integer
  (the comparator only returns it or \<open>-1\<close>, \<open>0\<close>, \<open>+1\<close>).
\<close>

record InternalKeyComparator =
  user_comparator_' :: "bytes \<Rightarrow> bytes \<Rightarrow> int"

definition Compare :: "InternalKeyComparator \<Rightarrow> bytes \<Rightarrow> bytes \<Rightarrow> fault + int" where
  "Compare cmp akey bkey =
     and_then (ExtractUserKey akey) (\<lambda>ua.
     and_then (ExtractUserKey bkey) (\<lambda>ub.
       let r = user_comparator_' cmp ua ub in
       if r = 0 then
         and_then (DecodeFixed64_at akey (length akey - kNumInternalBytes)) (\<lambda>anum.
         and_then (DecodeFixed64_at bkey (length bkey - kNumInternalBytes)) (\<lambda>bnum.
           Inr (if anum > bnum then - 1 else if anum < bnum then 1 else r)))
       else Inr r))"

text \<open>The overload of \<open>Compare\<close> with global sequence numbers.\<close>

definition Compare_global_seqno ::
    "InternalKeyComparator \<Rightarrow> bytes \<Rightarrow> SequenceNumber \<Rightarrow> bytes \<Rightarrow> SequenceNumber \<Rightarrow> fault + int" where
  "Compare_global_seqno cmp a a_global_seqno b b_global_seqno =
     and_then (ExtractUserKey a) (\<lambda>ua.
     and_then (ExtractUserKey b) (\<lambda>ub.
       let r = user_comparator_' cmp ua ub in
       if r = 0 then
         and_then
           (if a_global_seqno = kDisableGlobalSequenceNumber
            then ExtractInternalKeyFooter a
            else and_then (ExtractValueType a) (\<lambda>t. PackSequenceAndType a_global_seqno t))
           (\<lambda>a_footer.
         and_then
           (if b_global_seqno = kDisableGlobalSequenceNumber
            then ExtractInternalKeyFooter b
            else and_then (ExtractValueType b) (\<lambda>t. PackSequenceAndType b_global_seqno t))
           (\<lambda>b_footer.
             Inr (if a_footer > b_footer then - 1 else if a_footer < b_footer then 1 else r)))
       else Inr r))"

text \<open>
  Modelled from the spec: the user comparator is an externally supplied total order
  over user keys and no comparator is among the sources.  The concrete instances below
  use the byte-wise order: byte by byte, then by length.
\<close>

fun BytewiseCompare :: "bytes \<Rightarrow> bytes \<Rightarrow> int" where
  "BytewiseCompare [] [] = 0"
| "BytewiseCompare [] (y # ys) = - 1"
| "BytewiseCompare (x # xs) [] = 1"
| "BytewiseCompare (x # xs) (y # ys) =
     (if x < y then - 1 else if y < x then 1 else BytewiseCompare xs ys)"

definition BytewiseComparator :: InternalKeyComparator where
  "BytewiseComparator = \<lparr>user_comparator_' = BytewiseCompare\<rparr>"

text \<open>
  Modelled from the spec: with a timestamp of \<open>ts_sz\<close> bytes at the end of every user
  key, the user comparator orders by the key without its timestamp and puts the larger
  timestamp first, so that the all-\<open>0xff\<close> timestamp comes before any other.  The
  concrete instances with timestamps use this order.
\<close>

definition TimestampCompare :: "nat \<Rightarrow> bytes \<Rightarrow> bytes \<Rightarrow> int" where
  "TimestampCompare ts_sz a b =
     (let r = BytewiseCompare (take (length a - ts_sz) a) (take (length b - ts_sz) b)
      in if r \<noteq> 0 then r
         else - BytewiseCompare (drop (length a - ts_sz) a) (drop (length b - ts_sz) b))"

definition TimestampComparator :: "nat \<Rightarrow> InternalKeyComparator" where
  "TimestampComparator ts_sz = \<lparr>user_comparator_' = TimestampCompare ts_sz\<rparr>"

section \<open>The owning augmented-key value\<close>

text \<open>
  \<open>InternalKey\<close> holds the encoded key in \<open>rep_\<close>.  The constructors start from the empty
  string; \<open>SetMaxPossibleForUserKey\<close> and \<open>SetMinPossibleForUserKey\<close> append to whatever
  \<open>rep_\<close> holds.  \<open>kValueTypeForSeek\<close> is defined in db/dbformat.cc, which is not among
  the sources: it is a parameter of \<open>SetMinPossibleForUserKey\<close>.
\<close>

record InternalKey =
  rep_' :: bytes

definition InternalKey_new :: "bytes \<Rightarrow> SequenceNumber \<Rightarrow> ValueType \<Rightarrow> fault + InternalKey" where
  "InternalKey_new u s t =
     and_then (AppendInternalKey [] \<lparr>user_key = u, sequence = s, type = t\<rparr>)
       (\<lambda>r. Inr \<lparr>rep_' = r\<rparr>)"

definition InternalKey_new_ts ::
    "bytes \<Rightarrow> SequenceNumber \<Rightarrow> ValueType \<Rightarrow> bytes \<Rightarrow> fault + InternalKey" where
  "InternalKey_new_ts u s t ts =
     and_then
       (AppendInternalKeyWithDifferentTimestamp [] \<lparr>user_key = u, sequence = s, type = t\<rparr> ts)
       (\<lambda>r. Inr \<lparr>rep_' = r\<rparr>)"

definition SetMaxPossibleForUserKey :: "InternalKey \<Rightarrow> bytes \<Rightarrow> fault + InternalKey" where
  "SetMaxPossibleForUserKey k u =
     and_then (AppendInternalKey (rep_' k) \<lparr>user_key = u, sequence = 0, type = 0\<rparr>)
       (\<lambda>r. Inr (k\<lparr>rep_' := r\<rparr>))"

definition SetMinPossibleForUserKey ::
    "ValueType \<Rightarrow> InternalKey \<Rightarrow> bytes \<Rightarrow> fault + InternalKey" where
  "SetMinPossibleForUserKey kValueTypeForSeek k u =
     and_then
       (AppendInternalKey (rep_' k)
          \<lparr>user_key = u, sequence = kMaxSequenceNumber, type = kValueTypeForSeek\<rparr>)
       (\<lambda>r. Inr (k\<lparr>rep_' := r\<rparr>))"

section \<open>Range tombstones\<close>

text \<open>
  The slices \<open>start_key_\<close>, \<open>end_key_\<close> and \<open>ts_\<close> are held by their bytes; the strings
  \<open>pinned_start_key_\<close> and \<open>pinned_end_key_\<close> only keep the bytes of the two key slices
  alive and have no field of their own.
\<close>

record RangeTombstone =
  start_key_' :: bytes
  end_key_' :: bytes
  seq_' :: SequenceNumber
  ts_' :: bytes

definition RangeTombstone_new :: "bytes \<Rightarrow> bytes \<Rightarrow> SequenceNumber \<Rightarrow> RangeTombstone" where
  "RangeTombstone_new sk ek sn = \<lparr>start_key_' = sk, end_key_' = ek, seq_' = sn, ts_' = []\<rparr>"

definition RangeTombstone_new_ts ::
    "bytes \<Rightarrow> bytes \<Rightarrow> SequenceNumber \<Rightarrow> bytes \<Rightarrow> fault + RangeTombstone" where
  "RangeTombstone_new_ts sk ek sn ts =
     (if \<not> ts \<noteq> [] then Inl AssertionFailed
      else
        and_then (read_at sk 0 (size_sub (length sk) (length ts))) (\<lambda>sk_prefix.
        and_then (read_at ek 0 (size_sub (length ek) (length ts))) (\<lambda>ek_prefix.
          Inr \<lparr>start_key_' = sk_prefix @ ts, end_key_' = ek_prefix @ ts,
               seq_' = sn, ts_' = ts\<rparr>)))"

definition kTsMax :: bytes where
  "kTsMax = [0xff, 0xff, 0xff, 0xff, 0xff, 0xff, 0xff, 0xff, 0xff]"

definition SerializeKey :: "RangeTombstone \<Rightarrow> fault + InternalKey" where
  "SerializeKey r = InternalKey_new (start_key_' r) (seq_' r) kTypeRangeDeletion"

definition SerializeEndKey :: "RangeTombstone \<Rightarrow> fault + InternalKey" where
  "SerializeEndKey r =
     (if \<not> ts_' r = [] then
        if length (ts_' r) \<le> length kTsMax
        then InternalKey_new_ts (end_key_' r) kMaxSequenceNumber kTypeRangeDeletion
               (take (length (ts_' r)) kTsMax)
        else InternalKey_new_ts (end_key_' r) kMaxSequenceNumber kTypeRangeDeletion
               (replicate (length (ts_' r)) 0xff)
      else InternalKey_new (end_key_' r) kMaxSequenceNumber kTypeRangeDeletion)"

section \<open>The key builder\<close>

text \<open>
  \<open>IterKey\<close> mutates a buffer it owns and may alias bytes it does not own, so its model
  carries an explicit store.  A \<open>block\<close> is a buffer the builder owns: the inline array
  \<open>space_\<close> or the result of a \<open>new char[n]\<close>, numbered in the order of allocation.
  A \<open>char*\<close> is a block with an offset, or a pointer into memory the builder never
  writes (the caller's slices, a local \<open>std::string\<close>), which is given by the bytes
  reachable from it; the caller keeps those bytes alive and unchanged, and they are
  no part of the builder's own buffer.  \<open>memory\<close> holds the bytes of every block (none
  once the block is deleted) and \<open>allocations\<close> counts the \<open>new char[n]\<close> so far; a
  fresh array is filled with zeros.
\<close>

datatype block = Space | Heap nat

datatype charptr = Mem block nat | Extern bytes

fun ptr_add :: "charptr \<Rightarrow> nat \<Rightarrow> charptr" where
  "ptr_add (Mem b off) n = Mem b (off + n)"
| "ptr_add (Extern bs) n = Extern (drop n bs)"

record Slice =
  data_' :: charptr
  size_' :: nat

record IterKey =
  buf_' :: charptr
  key_' :: charptr
  key_size_' :: nat
  buf_size_' :: nat
  is_user_key_' :: bool
  memory :: "block \<Rightarrow> bytes"
  allocations :: nat

fun load :: "(block \<Rightarrow> bytes) \<Rightarrow> charptr \<Rightarrow> nat \<Rightarrow> fault + bytes" where
  "load m (Mem b off) n = read_at (m b) off n"
| "load m (Extern bs) n = read_at bs 0 n"

fun store :: "(block \<Rightarrow> bytes) \<Rightarrow> charptr \<Rightarrow> bytes \<Rightarrow> fault + (block \<Rightarrow> bytes)" where
  "store m (Mem b off) src = and_then (write_at (m b) off src) (\<lambda>bs. Inr (m(b := bs)))"
| "store m (Extern bs) src = (if src = [] then Inr m else Inl OutOfBounds)"

definition memcpy :: "IterKey \<Rightarrow> charptr \<Rightarrow> charptr \<Rightarrow> nat \<Rightarrow> fault + IterKey" where
  "memcpy k dst src n =
     and_then (load (memory k) src n) (\<lambda>bs.
     and_then (store (memory k) dst bs) (\<lambda>m.
       Inr (k\<lparr>memory := m\<rparr>)))"

definition new_chars :: "IterKey \<Rightarrow> nat \<Rightarrow> charptr \<times> IterKey" where
  "new_chars k n =
     (Mem (Heap (allocations k)) 0,
      k\<lparr>memory := (memory k)(Heap (allocations k) := replicate n 0),
        allocations := allocations k + 1\<rparr>)"

fun delete_chars :: "IterKey \<Rightarrow> charptr \<Rightarrow> IterKey" where
  "delete_chars k (Mem b off) = k\<lparr>memory := (memory k)(b := [])\<rparr>"
| "delete_chars k (Extern bs) = k"

definition space :: charptr where
  "space = Mem Space 0"

definition IterKey_new :: IterKey where
  "IterKey_new =
     \<lparr>buf_' = space, key_' = space, key_size_' = 0, buf_size_' = 39, is_user_key_' = True,
      memory = (\<lambda>b. case b of Space \<Rightarrow> replicate 39 0 | Heap n \<Rightarrow> []),
      allocations = 0\<rparr>"

definition IsKeyPinned :: "IterKey \<Rightarrow> bool" where
  "IsKeyPinned k = (key_' k \<noteq> buf_' k)"

definition IsUserKey :: "IterKey \<Rightarrow> bool" where
  "IsUserKey k = is_user_key_' k"

definition GetKey :: "IterKey \<Rightarrow> Slice" where
  "GetKey k = \<lparr>data_' = key_' k, size_' = key_size_' k\<rparr>"

text \<open>The bytes a slice views in the store of the builder.\<close>

definition slice_bytes :: "IterKey \<Rightarrow> Slice \<Rightarrow> fault + bytes" where
  "slice_bytes k s = load (memory k) (data_' s) (size_' s)"

definition ResetBuffer :: "IterKey \<Rightarrow> IterKey" where
  "ResetBuffer k =
     (let k1 = (if buf_' k \<noteq> space then (delete_chars k (buf_' k))\<lparr>buf_' := space\<rparr> else k)
      in k1\<lparr>buf_size_' := 39, key_size_' := 0\<rparr>)"

text \<open>
  Modelled from the spec: \<open>EnlargeBuffer\<close> is defined in db/dbformat.cc, which is not
  among the sources.  Growth reallocates to exactly the needed size and frees any
  previous heap buffer.
\<close>

definition EnlargeBuffer :: "IterKey \<Rightarrow> nat \<Rightarrow> IterKey" where
  "EnlargeBuffer k key_size =
     (let k1 = (if buf_' k \<noteq> space then delete_chars k (buf_' k) else k);
          (p, k2) = new_chars k1 key_size
      in k2\<lparr>buf_' := p, buf_size_' := key_size\<rparr>)"

definition EnlargeBufferIfNeeded :: "IterKey \<Rightarrow> nat \<Rightarrow> IterKey" where
  "EnlargeBufferIfNeeded k key_size =
     (if key_size > buf_size_' k then EnlargeBuffer k key_size else k)"

definition TrimAppend :: "IterKey \<Rightarrow> nat \<Rightarrow> charptr \<Rightarrow> nat \<Rightarrow> fault + IterKey" where
  "TrimAppend k shared_len non_shared_data non_shared_len =
     (if \<not> shared_len \<le> key_size_' k then Inl AssertionFailed
      else
        let total_size = shared_len + non_shared_len in
        and_then
          (if IsKeyPinned k then
             let k1 = EnlargeBufferIfNeeded k total_size
             in memcpy k1 (buf_' k1) (key_' k1) shared_len
           else if total_size > buf_size_' k then
             let (p, k1) = new_chars k total_size in
             and_then (memcpy k1 p (key_' k1) shared_len) (\<lambda>k2.
               let k3 = (if buf_' k2 \<noteq> space then delete_chars k2 (buf_' k2) else k2)
               in Inr (k3\<lparr>buf_' := p, buf_size_' := total_size\<rparr>))
           else Inr k)
          (\<lambda>k4.
        and_then (memcpy k4 (ptr_add (buf_' k4) shared_len) non_shared_data non_shared_len)
          (\<lambda>k5.
            Inr (k5\<lparr>key_' := buf_' k5, key_size_' := total_size\<rparr>))))"

definition SetKeyImpl :: "IterKey \<Rightarrow> Slice \<Rightarrow> bool \<Rightarrow> fault + IterKey" where
  "SetKeyImpl k key copy =
     (let size = size_' key in
      and_then
        (if copy then
           let k1 = EnlargeBufferIfNeeded k size in
           and_then (memcpy k1 (buf_' k1) (data_' key) size) (\<lambda>k2.
             Inr (k2\<lparr>key_' := buf_' k2\<rparr>))
         else Inr (k\<lparr>key_' := data_' key\<rparr>))
        (\<lambda>k3. Inr (k3\<lparr>key_size_' := size\<rparr>)))"

definition SetKey :: "IterKey \<Rightarrow> Slice \<Rightarrow> bool \<Rightarrow> fault + IterKey" where
  "SetKey k key copy = SetKeyImpl k key copy"

definition SetInternalKey :: "IterKey \<Rightarrow> Slice \<Rightarrow> bool \<Rightarrow> fault + IterKey" where
  "SetInternalKey k key copy = SetKeyImpl (k\<lparr>is_user_key_' := False\<rparr>) key copy"

text \<open>
  \<open>key_parts\<close> and \<open>*ts_added\<close> are updated in place by the source; the model passes
  and returns the pair.
\<close>

definition MaybeAddKeyPartsWithTimestamp ::
    "charptr \<Rightarrow> nat \<Rightarrow> bool \<Rightarrow> nat \<Rightarrow> bytes \<Rightarrow> Slice list \<times> bool \<Rightarrow> fault + (Slice list \<times> bool)" where
  "MaybeAddKeyPartsWithTimestamp slice_data slice_sz add_timestamp left_sz min_timestamp st =
     (case st of (key_parts, ts_added) \<Rightarrow>
        if add_timestamp \<and> \<not> ts_added then
          if \<not> slice_sz \<ge> left_sz then Inl AssertionFailed
          else Inr (key_parts @
                    [\<lparr>data_' = slice_data, size_' = left_sz\<rparr>,
                     \<lparr>data_' = Extern min_timestamp, size_' = length min_timestamp\<rparr>,
                     \<lparr>data_' = ptr_add slice_data left_sz, size_' = size_sub slice_sz left_sz\<rparr>],
                    True)
        else Inr (key_parts @ [\<lparr>data_' = slice_data, size_' = slice_sz\<rparr>], ts_added))"

text \<open>
  Modelled from the spec: the constructor \<open>Slice(const SliceParts&, std::string*)\<close> is
  not among the sources.  It materializes the ordered list of segments in one
  concatenation pass.
\<close>

fun SliceParts_concat :: "IterKey \<Rightarrow> Slice list \<Rightarrow> fault + bytes" where
  "SliceParts_concat k [] = Inr []"
| "SliceParts_concat k (s # parts) =
     and_then (slice_bytes k s) (\<lambda>bs.
     and_then (SliceParts_concat k parts) (\<lambda>rest. Inr (bs @ rest)))"

definition TrimAppendWithTimestamp ::
    "IterKey \<Rightarrow> nat \<Rightarrow> charptr \<Rightarrow> nat \<Rightarrow> nat \<Rightarrow> fault + IterKey" where
  "TrimAppendWithTimestamp k shared_len non_shared_data non_shared_len ts_sz =
     (let kTsMin = replicate ts_sz (0 :: byte) in
      and_then
        (if IsUserKey k then
           Inr [\<lparr>data_' = key_' k, size_' = shared_len\<rparr>,
                \<lparr>data_' = non_shared_data, size_' = non_shared_len\<rparr>,
                \<lparr>data_' = Extern kTsMin, size_' = length kTsMin\<rparr>]
         else if \<not> shared_len + non_shared_len \<ge> kNumInternalBytes then Inl AssertionFailed
         else
           let user_key_len = size_sub (key_size_' k) kNumInternalBytes;
               sharable_user_key_len = size_sub user_key_len ts_sz;
               shared_user_key_len = min shared_len sharable_user_key_len;
               shared_internal_bytes_len = size_sub shared_len shared_user_key_len
           in
           and_then
             (MaybeAddKeyPartsWithTimestamp (key_' k) shared_user_key_len
                (shared_internal_bytes_len + non_shared_len < kNumInternalBytes)
                (size_sub (shared_len + non_shared_len) kNumInternalBytes) kTsMin ([], False))
             (\<lambda>st1.
           and_then
             (MaybeAddKeyPartsWithTimestamp (ptr_add (key_' k) user_key_len)
                shared_internal_bytes_len (non_shared_len < kNumInternalBytes)
                (size_sub (shared_internal_bytes_len + non_shared_len) kNumInternalBytes)
                kTsMin st1)
             (\<lambda>st2.
           and_then
             (MaybeAddKeyPartsWithTimestamp non_shared_data non_shared_len
                (non_shared_len \<ge> kNumInternalBytes)
                (size_sub non_shared_len kNumInternalBytes) kTsMin st2)
             (\<lambda>st3.
               if \<not> snd st3 then Inl AssertionFailed else Inr (fst st3)))))
        (\<lambda>key_parts_with_ts.
      and_then (SliceParts_concat k key_parts_with_ts) (\<lambda>key_with_ts.
        SetKey k \<lparr>data_' = Extern key_with_ts, size_' = length key_with_ts\<rparr> True)))"

text \<open>
  \<open>IterKey::UpdateInternalKey\<close>; the optional \<open>const Slice* ts\<close> is \<open>None\<close> for
  \<open>nullptr\<close>.
\<close>

definition IterKey_UpdateInternalKey ::
    "IterKey \<Rightarrow> uint64_t \<Rightarrow> ValueType \<Rightarrow> Slice option \<Rightarrow> fault + IterKey" where
  "IterKey_UpdateInternalKey k seq t ts =
     (if \<not> \<not> IsKeyPinned k then Inl AssertionFailed
      else if \<not> key_size_' k \<ge> kNumInternalBytes then Inl AssertionFailed
      else
        and_then
          (case ts of
             None \<Rightarrow> Inr k
           | Some s \<Rightarrow>
               if \<not> key_size_' k \<ge> kNumInternalBytes + size_' s then Inl AssertionFailed
               else memcpy k
                      (ptr_add (buf_' k) (key_size_' k - kNumInternalBytes - size_' s))
                      (data_' s) (size_' s))
          (\<lambda>k1.
            let newval = push_bit 8 seq OR ucast t in
            and_then
              (store (memory k1) (ptr_add (buf_' k1) (key_size_' k1 - kNumInternalBytes))
                 (EncodeFixed64 newval))
              (\<lambda>m. Inr (k1\<lparr>memory := m\<rparr>))))"

text \<open>What a well-formed builder looks like between calls.\<close>

definition IterKey_ok :: "IterKey \<Rightarrow> bool" where
  "IterKey_ok k =
     ((case buf_' k of
         Mem b off \<Rightarrow>
           off = 0 \<and> length (memory k b) = buf_size_' k \<and>
           (case b of Space \<Rightarrow> True | Heap n \<Rightarrow> n < allocations k)
       | Extern bs \<Rightarrow> False) \<and>
      (case key_' k of
         Mem b off \<Rightarrow> key_' k = buf_' k \<and> key_size_' k \<le> buf_size_' k
       | Extern bs \<Rightarrow> key_size_' k \<le> length bs))"

section \<open>The delta stream of a sorted table block\<close>

text \<open>
  Modelled from the spec: the block builder that produces the shared-prefix and
  non-shared-suffix pairs is not among the sources.  The standard delta of a key
  against the previous one is the length of their longest common prefix and the rest of
  the key.  \<open>replay\<close> feeds the pairs to \<open>TrimAppend\<close> and collects the key held after
  each step.
\<close>

fun shared_prefix_len :: "bytes \<Rightarrow> bytes \<Rightarrow> nat" where
  "shared_prefix_len (x # xs) (y # ys) = (if x = y then Suc (shared_prefix_len xs ys) else 0)"
| "shared_prefix_len xs ys = 0"

fun delta_encode :: "bytes \<Rightarrow> bytes list \<Rightarrow> (nat \<times> bytes) list" where
  "delta_encode prev [] = []"
| "delta_encode prev (key # keys) =
     (shared_prefix_len prev key, drop (shared_prefix_len prev key) key) #
     delta_encode key keys"

fun replay :: "IterKey \<Rightarrow> (nat \<times> bytes) list \<Rightarrow> fault + bytes list" where
  "replay k [] = Inr []"
| "replay k ((shared, non_shared) # deltas) =
     and_then (TrimAppend k shared (Extern non_shared) (length non_shared)) (\<lambda>k'.
     and_then (slice_bytes k' (GetKey k')) (\<lambda>held.
     and_then (replay k' deltas) (\<lambda>rest. Inr (held # rest))))"

section \<open>Facts about the footer encoding\<close>

lemma length_EncodeFixed64: "length (EncodeFixed64 v) = 8"
  by (simp add: EncodeFixed64_def)

lemma DecodeFixed64_EncodeFixed64: "DecodeFixed64 (EncodeFixed64 v) = v"
  unfolding DecodeFixed64_def EncodeFixed64_def
  apply (rule bit_word_eqI)
  subgoal for n
    apply (simp add: bit_simps less_diff_conv2 cong: conj_cong)
    apply (cases "bit v n")
     apply simp_all
    apply linarith
    done
  done

lemma lex_nat:
  "r1 < (256::nat) \<Longrightarrow> r2 < 256 \<Longrightarrow>
   (256 * q1 + r1 < 256 * q2 + r2) = (q1 < q2 \<or> (q1 = q2 \<and> r1 < r2))"
  by arith

lemma footer_less:
  "(x < y) = (drop_bit 8 x < drop_bit 8 y \<or>
     (drop_bit 8 x = drop_bit 8 y \<and> (ucast x :: byte) < ucast y))" for x y :: uint64_t
proof -
  have "unat x = 256 * (unat x div 256) + unat x mod 256"
       "unat y = 256 * (unat y div 256) + unat y mod 256"
    by simp_all
  then have "unat x < unat y \<longleftrightarrow>
      (unat x div 256 < unat y div 256 \<or>
       (unat x div 256 = unat y div 256 \<and> unat x mod 256 < unat y mod 256))"
    using lex_nat[of "unat x mod 256" "unat y mod 256" "unat x div 256" "unat y div 256"]
    by simp
  then show ?thesis
    by (simp add: word_less_nat_alt word_unat_eq_iff unat_drop_bit_eq unsigned_ucast_eq
        drop_bit_eq_div take_bit_eq_mod unat_div_distrib)
qed

lemma ff_mask: "(0xff :: uint64_t) = mask 8"
  by (simp add: mask_eq_exp_minus_1)

lemma ucast_and_ff: "(ucast (x AND 0xff) :: byte) = ucast x" for x :: uint64_t
  unfolding ff_mask by (rule bit_word_eqI) (auto simp: bit_simps)

lemma take_bit_seq:
  assumes "seq \<le> kMaxSequenceNumber"
  shows "take_bit 56 seq = seq"
proof -
  have "unat seq \<le> unat kMaxSequenceNumber"
    using assms by (simp add: word_le_nat_alt)
  moreover have "unat kMaxSequenceNumber = 2 ^ 56 - 1"
    by (simp add: kMaxSequenceNumber_def)
  ultimately have "unat seq < 2 ^ 56" by simp
  then have "take_bit 56 (unat seq) = unat seq"
    by (simp add: take_bit_nat_eq_self)
  then show ?thesis
    by (simp add: word_unat_eq_iff unsigned_take_bit_eq)
qed

lemma unpack_pack_seq:
  fixes seq :: uint64_t and t :: byte
  assumes "seq \<le> kMaxSequenceNumber"
  shows "drop_bit 8 (push_bit 8 seq OR ucast t) = seq"
proof -
  have "drop_bit 8 (push_bit 8 seq OR ucast t) = take_bit 56 seq"
    by (rule bit_word_eqI) (auto simp: bit_simps dest: bit_imp_le_length)
  then show ?thesis using assms by (simp add: take_bit_seq)
qed

lemma unpack_pack_type:
  "(ucast (push_bit 8 seq OR ucast t :: uint64_t) :: byte) = t"
  for seq :: uint64_t and t :: byte
  by (rule bit_word_eqI) (auto simp: bit_simps)

lemma repack: "push_bit 8 (drop_bit 8 p) OR ucast (ucast (p AND 0xff) :: byte) = p" for p :: uint64_t
  unfolding ff_mask
  apply (rule bit_word_eqI)
  subgoal for n
    by (cases "8 \<le> n") (auto simp: bit_simps)
  done

lemma unat_tag: "unat (ucast (p AND 0xff) :: byte) = unat p mod 256" for p :: uint64_t
  by (simp add: ucast_and_ff unsigned_ucast_eq take_bit_eq_mod)

lemma unat_seq: "unat (drop_bit 8 p) = unat p div 256" for p :: uint64_t
  by (simp add: unat_drop_bit_eq drop_bit_eq_div  unat_div_distrib)

lemma read_at_ok: "off + n \<le> length span \<Longrightarrow> read_at span off n = Inr (take n (drop off span))"
  by (simp add: read_at_def)

lemma DecodeFixed64_at_footer:
  "8 \<le> length k \<Longrightarrow>
   DecodeFixed64_at k (length k - 8) = Inr (DecodeFixed64 (drop (length k - 8) k))"
  by (simp add: DecodeFixed64_at_def read_at_def)

lemma ExtractUserKey_ok:
  "8 \<le> length k \<Longrightarrow> ExtractUserKey k = Inr (take (length k - 8) k)"
  by (simp add: ExtractUserKey_def kNumInternalBytes_def)

lemma ExtractInternalKeyFooter_ok:
  "8 \<le> length k \<Longrightarrow>
   ExtractInternalKeyFooter k = Inr (DecodeFixed64 (drop (length k - 8) k))"
  by (simp add: ExtractInternalKeyFooter_def kNumInternalBytes_def DecodeFixed64_at_footer)

lemma ExtractValueType_ok:
  "8 \<le> length k \<Longrightarrow>
   ExtractValueType k = Inr (ucast (DecodeFixed64 (drop (length k - 8) k)))"
  by (simp add: ExtractValueType_def ExtractInternalKeyFooter_ok ucast_and_ff)

lemmas ValueType_defs =
  kTypeDeletion_def kTypeValue_def kTypeMerge_def kTypeSingleDeletion_def
  kTypeRangeDeletion_def kTypeDeletionWithTimestamp_def kTypeWideColumnEntity_def
  kTypeBlobIndex_def kTypeMaxValid_def kMaxValue_def

lemma IsExtendedValueType_le_kMaxValue: "IsExtendedValueType t \<Longrightarrow> t \<le> kMaxValue"
  by (auto simp: IsExtendedValueType_def IsValueType_def ValueType_defs word_le_nat_alt)

lemma UnPackSequenceAndType_invalid_tag:
  "UnPackSequenceAndType 0xFFFFFFFFFFFFFFFF = (kMaxSequenceNumber, 0xFF) \<and>
   \<not> IsExtendedValueType 0xFF \<and>
   PackSequenceAndType kMaxSequenceNumber 0xFF = Inl AssertionFailed"
  by (simp add: UnPackSequenceAndType_def PackSequenceAndType_def IsExtendedValueType_def
      IsValueType_def kMaxSequenceNumber_def ValueType_defs)

lemma PackSequenceAndType_ok:
  "s \<le> kMaxSequenceNumber \<Longrightarrow> IsExtendedValueType t \<Longrightarrow>
   PackSequenceAndType s t = Inr (push_bit 8 s OR ucast t)"
  by (simp add: PackSequenceAndType_def)

lemma AppendInternalKey_ok:
  "s \<le> kMaxSequenceNumber \<Longrightarrow> IsExtendedValueType t \<Longrightarrow>
   AppendInternalKey r \<lparr>user_key = u, sequence = s, type = t\<rparr> =
     Inr (r @ u @ EncodeFixed64 (push_bit 8 s OR ucast t))"
  by (simp add: AppendInternalKey_def PackSequenceAndType_ok)

lemma Compare_encoded:
  "Compare cmp (u @ EncodeFixed64 fa) (v @ EncodeFixed64 fb) =
     Inr (if user_comparator_' cmp u v = 0
          then (if fa > fb then - 1 else if fa < fb then 1 else 0)
          else user_comparator_' cmp u v)"
  by (simp add: Compare_def ExtractUserKey_def kNumInternalBytes_def length_EncodeFixed64
      DecodeFixed64_at_def read_at_def DecodeFixed64_EncodeFixed64 Let_def)

lemma pack_less:
  fixes s s' :: uint64_t and t t' :: byte
  assumes "s \<le> kMaxSequenceNumber" and "s' \<le> kMaxSequenceNumber"
  shows "(push_bit 8 s OR ucast t < push_bit 8 s' OR ucast t') = (s < s' \<or> (s = s' \<and> t < t'))"
  using assms
  by (simp add: footer_less [of "push_bit 8 s OR ucast t" "push_bit 8 s' OR ucast t'"]
      unpack_pack_seq unpack_pack_type del: drop_bit_or)

lemma pack_eq:
  fixes s s' :: uint64_t and t t' :: byte
  assumes "s \<le> kMaxSequenceNumber" and "s' \<le> kMaxSequenceNumber"
  shows "(push_bit 8 s OR ucast t = push_bit 8 s' OR ucast t') = (s = s' \<and> t = t')"
  using assms unpack_pack_seq [of s t] unpack_pack_seq [of s' t']
    unpack_pack_type [of s t] unpack_pack_type [of s' t']
  by (auto simp del: drop_bit_or)

lemma IsExtendedValueType_0: "IsExtendedValueType 0"
  by (simp add: IsExtendedValueType_def IsValueType_def ValueType_defs)

lemma IsExtendedValueType_kTypeRangeDeletion: "IsExtendedValueType kTypeRangeDeletion"
  by (simp add: IsExtendedValueType_def)

lemma IsExtendedValueType_kTypeValue: "IsExtendedValueType kTypeValue"
  by (simp add: IsExtendedValueType_def IsValueType_def ValueType_defs)

lemma kMaxSequenceNumber_value: "kMaxSequenceNumber = 0xFFFFFFFFFFFFFF"
  by (simp add: kMaxSequenceNumber_def)


lemma BytewiseCompare_refl: "BytewiseCompare u u = 0"
  by (induction u) simp_all


lemma BytewiseCompare_max_first:
  "length ts = n \<Longrightarrow> 0 \<le> BytewiseCompare (replicate n 0xff) ts"
proof (induction ts arbitrary: n)
  case Nil
  then show ?case by simp
next
  case (Cons x xs)
  then obtain m where n: "n = Suc m" and m: "length xs = m"
    by auto
  have "x \<le> 0xff"
    using unsigned_less [of x, where 'a = nat] by (simp add: word_le_nat_alt)
  then show ?case
    using Cons.IH [OF m] n by auto
qed

lemma TimestampCompare_max_first:
  assumes "length ts = n"
  shows "TimestampCompare n (p @ replicate n 0xff) (p @ ts) \<le> 0"
  using BytewiseCompare_max_first [OF assms] assms
  by (simp add: TimestampCompare_def BytewiseCompare_refl)

lemma kTsMax_replicate:
  assumes "n \<le> length kTsMax"
  shows "take n kTsMax = replicate n 0xff"
proof -
  have K: "kTsMax = replicate 9 0xff"
    by (simp add: kTsMax_def eval_nat_numeral)
  have "n \<le> 9"
    using assms by (simp add: kTsMax_def)
  then have "take n (replicate 9 (0xff :: byte)) = replicate n 0xff"
    by (simp only: take_replicate min_absorb1)
  then show ?thesis
    by (simp only: K)
qed


section \<open>Facts about the key builder\<close>

lemma write_at_ok:
  "off + length src \<le> length buf \<Longrightarrow>
   write_at buf off src = Inr (take off buf @ src @ drop (off + length src) buf)"
  by (simp add: write_at_def)

lemma IterKey_ok_buf:
  assumes "IterKey_ok k"
  shows "\<exists>b. buf_' k = Mem b 0 \<and> length (memory k b) = buf_size_' k \<and>
             (\<forall>n. b = Heap n \<longrightarrow> n < allocations k)"
  using assms by (auto simp: IterKey_ok_def split: charptr.splits block.splits)

lemma IterKey_ok_key:
  assumes "IterKey_ok k"
  shows "(key_' k = buf_' k \<and> key_size_' k \<le> buf_size_' k) \<or>
         (\<exists>bs. key_' k = Extern bs \<and> key_size_' k \<le> length bs)"
  using assms by (auto simp: IterKey_ok_def split: charptr.splits)

lemma held_key:
  assumes "IterKey_ok k"
  shows "\<exists>old. slice_bytes k (GetKey k) = Inr old \<and> length old = key_size_' k"
proof -
  obtain b where b: "buf_' k = Mem b 0" "length (memory k b) = buf_size_' k"
    using IterKey_ok_buf [OF assms] by blast
  from IterKey_ok_key [OF assms] show ?thesis
  proof
    assume "key_' k = buf_' k \<and> key_size_' k \<le> buf_size_' k"
    then show ?thesis using b
      by (simp add: slice_bytes_def GetKey_def read_at_def)
  next
    assume "\<exists>bs. key_' k = Extern bs \<and> key_size_' k \<le> length bs"
    then show ?thesis
      by (auto simp add: slice_bytes_def GetKey_def read_at_def)
  qed
qed

lemma memcpy_from_Extern:
  assumes "n \<le> length bs" and "off + n \<le> length (memory k b)"
  shows "memcpy k (Mem b off) (Extern bs) n =
     Inr (k\<lparr>memory := (memory k)
            (b := take off (memory k b) @ take n bs @ drop (off + n) (memory k b))\<rparr>)"
  using assms by (auto simp add: memcpy_def read_at_def write_at_def)

lemma memcpy_from_Mem:
  assumes "soff + n \<le> length (memory k sb)" and "doff + n \<le> length (memory k db)"
  shows "memcpy k (Mem db doff) (Mem sb soff) n =
     Inr (k\<lparr>memory := (memory k)
            (db := take doff (memory k db) @ take n (drop soff (memory k sb)) @
                   drop (doff + n) (memory k db))\<rparr>)"
  using assms by (auto simp add: memcpy_def read_at_def write_at_def)

lemma TrimAppend_pinned:
  assumes ok: "IterKey_ok k" and pin: "key_' k = Extern bs"
    and sh: "shared_len \<le> key_size_' k" and nl: "non_shared_len \<le> length d"
  shows "\<exists>k'. TrimAppend k shared_len (Extern d) non_shared_len = Inr k' \<and>
      IterKey_ok k' \<and> \<not> IsKeyPinned k' \<and> is_user_key_' k' = is_user_key_' k \<and>
      slice_bytes k' (GetKey k') = Inr (take shared_len bs @ take non_shared_len d)"
proof -
  obtain b where b: "buf_' k = Mem b 0" "length (memory k b) = buf_size_' k"
    and fresh: "\<forall>n. b = Heap n \<longrightarrow> n < allocations k"
    using IterKey_ok_buf [OF ok] by blast
  have len: "shared_len \<le> length bs"
    using ok pin sh by (simp add: IterKey_ok_def)
  have pinned: "IsKeyPinned k"
    using pin b by (simp add: IsKeyPinned_def)
  let ?new = "take shared_len bs @ take non_shared_len d"
  have new_len: "length ?new = shared_len + non_shared_len"
    using len nl by simp
  show ?thesis
  proof (cases "shared_len + non_shared_len > buf_size_' k")
    case True
    let ?a = "Heap (allocations k)"
    let ?k1 = "EnlargeBufferIfNeeded k (shared_len + non_shared_len)"
    have k1: "buf_' ?k1 = Mem ?a 0" "key_' ?k1 = Extern bs"
      "memory ?k1 ?a = replicate (shared_len + non_shared_len) 0"
      "allocations ?k1 = Suc (allocations k)" "is_user_key_' ?k1 = is_user_key_' k"
      using True pin b
      by (simp_all add: EnlargeBufferIfNeeded_def EnlargeBuffer_def new_chars_def Let_def)
    have "TrimAppend k shared_len (Extern d) non_shared_len =
        Inr (?k1\<lparr>memory := (memory ?k1)(?a := ?new), key_' := Mem ?a 0,
                 key_size_' := shared_len + non_shared_len\<rparr>)"
      using sh pinned k1 len nl
      by (simp add: TrimAppend_def Let_def memcpy_from_Extern)
    moreover have "buf_size_' ?k1 = shared_len + non_shared_len"
      using True b by (simp add: EnlargeBufferIfNeeded_def EnlargeBuffer_def new_chars_def Let_def)
    ultimately show ?thesis
      using k1 new_len
      by (simp add: IterKey_ok_def IsKeyPinned_def slice_bytes_def GetKey_def read_at_def)
  next
    case False
    then have fits: "shared_len + non_shared_len \<le> buf_size_' k" by simp
    show ?thesis
      using fits sh pinned b pin len nl fresh
      by (simp add: TrimAppend_def Let_def EnlargeBufferIfNeeded_def memcpy_from_Extern
          IterKey_ok_def IsKeyPinned_def slice_bytes_def GetKey_def read_at_ok
          split: block.splits)
  qed
qed

lemma TrimAppend_owned:
  assumes ok: "IterKey_ok k" and own: "key_' k = buf_' k" and b: "buf_' k = Mem b 0"
    and sh: "shared_len \<le> key_size_' k" and nl: "non_shared_len \<le> length d"
  shows "\<exists>k'. TrimAppend k shared_len (Extern d) non_shared_len = Inr k' \<and>
      IterKey_ok k' \<and> \<not> IsKeyPinned k' \<and> is_user_key_' k' = is_user_key_' k \<and>
      slice_bytes k' (GetKey k') =
        Inr (take shared_len (memory k b) @ take non_shared_len d)"
proof -
  have blen: "length (memory k b) = buf_size_' k"
    and fresh: "\<forall>n. b = Heap n \<longrightarrow> n < allocations k"
    using IterKey_ok_buf [OF ok] b by auto
  have len: "shared_len \<le> buf_size_' k"
    using ok own b sh by (simp add: IterKey_ok_def)
  have owned: "\<not> IsKeyPinned k"
    using own by (simp add: IsKeyPinned_def)
  have keyb: "key_' k = Mem b 0"
    using own b by simp
  let ?new = "take shared_len (memory k b) @ take non_shared_len d"
  show ?thesis
  proof (cases "shared_len + non_shared_len > buf_size_' k")
    case True
    have ab: "Heap (allocations k) \<noteq> b"
      using fresh by auto
    have pad: "replicate (shared_len + non_shared_len) (0 :: byte) =
        replicate shared_len 0 @ replicate non_shared_len 0"
      by (simp add: replicate_add)
    show ?thesis
    proof (cases "b = Space")
      case True
      then show ?thesis
        using \<open>shared_len + non_shared_len > buf_size_' k\<close> sh owned b keyb ab nl len blen
        by (simp add: TrimAppend_def new_chars_def Let_def space_def memcpy_from_Mem
            memcpy_from_Extern IterKey_ok_def IsKeyPinned_def slice_bytes_def GetKey_def
            read_at_ok)
    next
      case False
      then show ?thesis
        using \<open>shared_len + non_shared_len > buf_size_' k\<close> sh owned b keyb ab nl len blen
        by (simp add: TrimAppend_def new_chars_def Let_def space_def memcpy_from_Mem
            memcpy_from_Extern IterKey_ok_def IsKeyPinned_def slice_bytes_def GetKey_def
            read_at_ok)
    qed
  next
    case False
    then have fits: "shared_len + non_shared_len \<le> buf_size_' k" by simp
    show ?thesis
      using fits sh owned b keyb nl len blen fresh
      by (simp add: TrimAppend_def Let_def memcpy_from_Extern
          IterKey_ok_def IsKeyPinned_def slice_bytes_def GetKey_def read_at_ok
          split: block.splits)
  qed
qed

lemma TrimAppend_step:
  assumes ok: "IterKey_ok k" and held: "slice_bytes k (GetKey k) = Inr old"
    and sh: "shared_len \<le> key_size_' k" and nl: "non_shared_len \<le> length d"
  shows "\<exists>k'. TrimAppend k shared_len (Extern d) non_shared_len = Inr k' \<and>
      IterKey_ok k' \<and> \<not> IsKeyPinned k' \<and> is_user_key_' k' = is_user_key_' k \<and>
      slice_bytes k' (GetKey k') = Inr (take shared_len old @ take non_shared_len d)"
proof -
  obtain b where b: "buf_' k = Mem b 0" "length (memory k b) = buf_size_' k"
    using IterKey_ok_buf [OF ok] by blast
  from IterKey_ok_key [OF ok] show ?thesis
  proof
    assume own: "key_' k = buf_' k \<and> key_size_' k \<le> buf_size_' k"
    then have "old = take (key_size_' k) (memory k b)"
      using held b by (simp add: slice_bytes_def GetKey_def read_at_def split: if_splits)
    then have "take shared_len old = take shared_len (memory k b)"
      using sh by (simp add: min_def)
    then show ?thesis
      using TrimAppend_owned [OF ok _ b(1) sh nl] own by simp
  next
    assume "\<exists>bs. key_' k = Extern bs \<and> key_size_' k \<le> length bs"
    then obtain bs where pin: "key_' k = Extern bs" "key_size_' k \<le> length bs"
      by blast
    then have "old = take (key_size_' k) bs"
      using held by (simp add: slice_bytes_def GetKey_def read_at_def split: if_splits)
    then have "take shared_len old = take shared_len bs"
      using sh by (simp add: min_def)
    then show ?thesis
      using TrimAppend_pinned [OF ok pin(1) sh nl] by simp
  qed
qed

lemma shared_prefix_len_le: "shared_prefix_len xs ys \<le> length xs"
  by (induction xs ys rule: shared_prefix_len.induct) simp_all

lemma shared_prefix_len_take:
  "take (shared_prefix_len xs ys) xs = take (shared_prefix_len xs ys) ys"
  by (induction xs ys rule: shared_prefix_len.induct) simp_all

lemma replay_delta_encode:
  assumes "IterKey_ok k" and "slice_bytes k (GetKey k) = Inr old"
  shows "replay k (delta_encode old keys) = Inr keys"
  using assms
proof (induction keys arbitrary: k old)
  case Nil
  then show ?case by simp
next
  case (Cons key keys)
  let ?sh = "shared_prefix_len old key"
  have len: "length old = key_size_' k"
    using held_key [OF Cons.prems(1)] Cons.prems(2) by auto
  then have sh: "?sh \<le> key_size_' k"
    using shared_prefix_len_le [of old key] by simp
  obtain k' where k': "TrimAppend k ?sh (Extern (drop ?sh key)) (length (drop ?sh key)) = Inr k'"
    "IterKey_ok k'"
    "slice_bytes k' (GetKey k') = Inr (take ?sh old @ take (length (drop ?sh key)) (drop ?sh key))"
    using TrimAppend_step [OF Cons.prems sh, of "length (drop ?sh key)" "drop ?sh key"]
    by auto
  have key: "take ?sh old @ take (length (drop ?sh key)) (drop ?sh key) = key"
    by (simp add: shared_prefix_len_take)
  have "replay k' (delta_encode key keys) = Inr keys"
    using Cons.IH [OF k'(2)] k'(3) key by simp
  then show ?case
    using k'(1,3) key by simp
qed


lemma store_Mem:
  assumes "off + length src \<le> length (m b)"
  shows "store m (Mem b off) src = Inr (m(b := take off (m b) @ src @ drop (off + length src) (m b)))"
  using assms by (auto simp add: write_at_def)

lemma IterKey_UpdateInternalKey_None:
  assumes b: "buf_' k = Mem b 0" and own: "key_' k = buf_' k"
    and blen: "length (memory k b) = buf_size_' k" and fit: "key_size_' k \<le> buf_size_' k"
    and sz: "8 \<le> key_size_' k"
  shows "IterKey_UpdateInternalKey k seq t None =
     Inr (k\<lparr>memory := (memory k)
            (b := take (key_size_' k - 8) (memory k b) @
                  EncodeFixed64 (push_bit 8 seq OR ucast t) @
                  drop (key_size_' k) (memory k b))\<rparr>)"
  using assms
  by (simp add: IterKey_UpdateInternalKey_def IsKeyPinned_def kNumInternalBytes_def Let_def
      store_Mem length_EncodeFixed64 del: store.simps)

lemma IterKey_UpdateInternalKey_Some:
  assumes b: "buf_' k = Mem b 0" and own: "key_' k = buf_' k"
    and blen: "length (memory k b) = buf_size_' k" and fit: "key_size_' k \<le> buf_size_' k"
    and sz: "8 + length new_ts \<le> key_size_' k"
  shows "IterKey_UpdateInternalKey k seq t
       (Some \<lparr>data_' = Extern new_ts, size_' = length new_ts\<rparr>) =
     Inr (k\<lparr>memory := (memory k)
            (b := take (key_size_' k - 8 - length new_ts) (memory k b) @ new_ts @
                  EncodeFixed64 (push_bit 8 seq OR ucast t) @
                  drop (key_size_' k) (memory k b))\<rparr>)"
proof -
  define m1 where "m1 = take (key_size_' k - 8 - length new_ts) (memory k b) @ new_ts @
      drop (key_size_' k - 8) (memory k b)"
  define E where "E = EncodeFixed64 (push_bit 8 seq OR ucast t)"
  have lenE: "length E = 8"
    by (simp add: E_def length_EncodeFixed64)
  have cp: "memcpy k (Mem b (key_size_' k - 8 - length new_ts)) (Extern new_ts) (length new_ts)
      = Inr (k\<lparr>memory := (memory k)(b := m1)\<rparr>)"
    using memcpy_from_Extern [of "length new_ts" new_ts "key_size_' k - 8 - length new_ts" k b]
      blen fit sz by (simp add: m1_def)
  have len1: "length m1 = buf_size_' k"
    using blen fit sz by (simp add: m1_def)
  have t1: "take (key_size_' k - 8) m1 =
      take (key_size_' k - 8 - length new_ts) (memory k b) @ new_ts"
    using blen fit sz by (simp add: m1_def)
  have d1: "drop (key_size_' k) m1 = drop (key_size_' k) (memory k b)"
    using blen fit sz by (simp add: m1_def)
  have "store ((memory k)(b := m1)) (Mem b (key_size_' k - 8)) E =
      Inr (((memory k)(b := m1))
        (b := take (key_size_' k - 8) m1 @ E @ drop (key_size_' k) m1))"
    using store_Mem [of "key_size_' k - 8" E "(memory k)(b := m1)" b] len1 fit sz lenE
    by simp
  then have st: "store ((memory k)(b := m1)) (Mem b (key_size_' k - 8)) E =
      Inr ((memory k)
        (b := take (key_size_' k - 8 - length new_ts) (memory k b) @ new_ts @ E @
              drop (key_size_' k) (memory k b)))"
    by (simp only: t1 d1 fun_upd_upd append_assoc)
  show ?thesis
    using b own sz cp st
    by (simp add: IterKey_UpdateInternalKey_def IsKeyPinned_def kNumInternalBytes_def Let_def
        E_def del: store.simps)
qed


lemma SetKey_copy:
  assumes ok: "IterKey_ok k"
  shows "\<exists>k'. SetKey k \<lparr>data_' = Extern bs, size_' = length bs\<rparr> True = Inr k' \<and>
      IterKey_ok k' \<and> \<not> IsKeyPinned k' \<and> is_user_key_' k' = is_user_key_' k \<and>
      slice_bytes k' (GetKey k') = Inr bs"
proof -
  obtain b where b: "buf_' k = Mem b 0" "length (memory k b) = buf_size_' k"
    and fresh: "\<forall>n. b = Heap n \<longrightarrow> n < allocations k"
    using IterKey_ok_buf [OF ok] by blast
  show ?thesis
  proof (cases "length bs > buf_size_' k")
    case True
    then show ?thesis
      using b
      by (simp add: SetKey_def SetKeyImpl_def Let_def EnlargeBufferIfNeeded_def
          EnlargeBuffer_def new_chars_def memcpy_from_Extern IterKey_ok_def IsKeyPinned_def
          slice_bytes_def GetKey_def read_at_ok)
  next
    case False
    then show ?thesis
      using b fresh
      by (simp add: SetKey_def SetKeyImpl_def Let_def EnlargeBufferIfNeeded_def
          memcpy_from_Extern IterKey_ok_def IsKeyPinned_def
          slice_bytes_def GetKey_def read_at_ok split: block.splits)
  qed
qed

lemma ptr_add_0: "ptr_add p 0 = p"
  by (cases p) simp_all

lemma key_slice:
  assumes ok: "IterKey_ok k" and held: "slice_bytes k (GetKey k) = Inr old"
    and n: "n = 0 \<or> off + n \<le> key_size_' k"
  shows "slice_bytes k \<lparr>data_' = ptr_add (key_' k) off, size_' = n\<rparr> =
      Inr (take n (drop off old))"
proof (cases "n = 0")
  case True
  then show ?thesis
    by (cases "key_' k") (simp_all add: slice_bytes_def read_at_def)
next
  case False
  then have fit: "off + n \<le> key_size_' k"
    using n by simp
  obtain b where b: "buf_' k = Mem b 0" "length (memory k b) = buf_size_' k"
    using IterKey_ok_buf [OF ok] by blast
  from IterKey_ok_key [OF ok] show ?thesis
  proof
    assume own: "key_' k = buf_' k \<and> key_size_' k \<le> buf_size_' k"
    then have "old = take (key_size_' k) (memory k b)"
      using held b by (simp add: slice_bytes_def GetKey_def read_at_ok)
    then show ?thesis
      using own b fit by (simp add: slice_bytes_def read_at_ok take_drop min_def)
  next
    assume "\<exists>bs. key_' k = Extern bs \<and> key_size_' k \<le> length bs"
    then obtain bs where pin: "key_' k = Extern bs" "key_size_' k \<le> length bs"
      by blast
    then have "old = take (key_size_' k) bs"
      using held by (simp add: slice_bytes_def GetKey_def read_at_ok)
    then show ?thesis
      using pin fit by (simp add: slice_bytes_def read_at_ok take_drop min_def)
  qed
qed

lemma key_slice_0:
  assumes ok: "IterKey_ok k" and held: "slice_bytes k (GetKey k) = Inr old"
    and n: "n \<le> key_size_' k"
  shows "slice_bytes k \<lparr>data_' = key_' k, size_' = n\<rparr> = Inr (take n old)"
  using key_slice [OF ok held, of n 0] n by (simp add: ptr_add_0)

lemma Extern_slice:
  assumes "off + n \<le> length d"
  shows "slice_bytes k \<lparr>data_' = ptr_add (Extern d) off, size_' = n\<rparr> =
      Inr (take n (drop off d))"
  using assms by (simp add: slice_bytes_def read_at_ok)

lemma Extern_slice_0:
  assumes "n \<le> length d"
  shows "slice_bytes k \<lparr>data_' = Extern d, size_' = n\<rparr> = Inr (take n d)"
  using assms by (simp add: slice_bytes_def read_at_ok)

lemma TrimAppendWithTimestamp_in_prefix:
  assumes ok: "IterKey_ok k" and held: "slice_bytes k (GetKey k) = Inr old"
    and ik: "\<not> IsUserKey k" and nl: "non_shared_len \<le> length d"
    and U: "size_sub (key_size_' k) 8 = U"
    and su: "min shared_len (size_sub U ts_sz) = su"
    and si: "size_sub shared_len su = si"
    and total: "8 \<le> shared_len + non_shared_len"
    and left: "left = shared_len + non_shared_len - 8"
    and c: "si + non_shared_len < 8"
    and su_ok: "su \<le> key_size_' k" and si_ok: "si = 0 \<or> U + si \<le> key_size_' k"
    and sum: "su + si = shared_len"
  shows "TrimAppendWithTimestamp k shared_len (Extern d) non_shared_len ts_sz =
     SetKey k
       \<lparr>data_' = Extern (take left old @ replicate ts_sz 0 @
           take (su - left) (drop left old) @ take si (drop U old) @ take non_shared_len d),
        size_' = length (take left old @ replicate ts_sz 0 @
           take (su - left) (drop left old) @ take si (drop U old) @ take non_shared_len d)\<rparr>
       True"
proof -
  have l1: "left \<le> su" "left \<le> key_size_' k"
    using left c sum su_ok by simp_all
  have l2: "size_sub (shared_len + non_shared_len) 8 = left"
    using total left by (simp add: size_sub_def)
  have l3: "size_sub su left = su - left"
    using l1 by (simp add: size_sub_def)
  have s1: "slice_bytes k \<lparr>data_' = key_' k, size_' = left\<rparr> = Inr (take left old)"
    using key_slice_0 [OF ok held l1(2)] .
  have s2: "slice_bytes k \<lparr>data_' = ptr_add (key_' k) left, size_' = su - left\<rparr> =
      Inr (take (su - left) (drop left old))"
    using key_slice [OF ok held, of "su - left" left] l1 su_ok by simp
  have s3: "slice_bytes k \<lparr>data_' = ptr_add (key_' k) U, size_' = si\<rparr> =
      Inr (take si (drop U old))"
    using key_slice [OF ok held, of si U] si_ok by simp
  have s4: "slice_bytes k \<lparr>data_' = Extern d, size_' = non_shared_len\<rparr> =
      Inr (take non_shared_len d)"
    using Extern_slice_0 [OF nl] .
  have s5: "slice_bytes k \<lparr>data_' = Extern (replicate ts_sz 0), size_' = ts_sz\<rparr> =
      Inr (replicate ts_sz 0)"
    using Extern_slice_0 [of ts_sz "replicate ts_sz 0" k] by simp
  show ?thesis
    using ik total c l1
    by (simp add: TrimAppendWithTimestamp_def Let_def kNumInternalBytes_def U su si l2 l3
        MaybeAddKeyPartsWithTimestamp_def s1 s2 s3 s4 s5)
qed

lemma ptr_add_add: "ptr_add (ptr_add p a) b = ptr_add p (a + b)"
  by (cases p) (simp_all add: add.commute)

lemma TrimAppendWithTimestamp_in_footer:
  assumes ok: "IterKey_ok k" and held: "slice_bytes k (GetKey k) = Inr old"
    and ik: "\<not> IsUserKey k" and nl: "non_shared_len \<le> length d"
    and U: "size_sub (key_size_' k) 8 = U"
    and su: "min shared_len (size_sub U ts_sz) = su"
    and si: "size_sub shared_len su = si"
    and left: "left = si + non_shared_len - 8"
    and c: "8 \<le> si + non_shared_len" "non_shared_len < 8"
    and su_ok: "su \<le> key_size_' k" and si_ok: "si = 0 \<or> U + si \<le> key_size_' k"
    and sum: "su + si = shared_len"
  shows "TrimAppendWithTimestamp k shared_len (Extern d) non_shared_len ts_sz =
     SetKey k
       \<lparr>data_' = Extern (take su old @ take left (drop U old) @ replicate ts_sz 0 @
           take (si - left) (drop (U + left) old) @ take non_shared_len d),
        size_' = length (take su old @ take left (drop U old) @ replicate ts_sz 0 @
           take (si - left) (drop (U + left) old) @ take non_shared_len d)\<rparr>
       True"
proof -
  have l1: "left \<le> si" "0 < si" "U + si \<le> key_size_' k"
    using left c si_ok by auto
  have l2: "size_sub (si + non_shared_len) 8 = left"
    using c left by (simp add: size_sub_def)
  have l3: "size_sub si left = si - left"
    using l1 by (simp add: size_sub_def)
  have total: "8 \<le> shared_len + non_shared_len"
    using c sum by simp
  have s1: "slice_bytes k \<lparr>data_' = key_' k, size_' = su\<rparr> = Inr (take su old)"
    using key_slice_0 [OF ok held su_ok] .
  have s2: "slice_bytes k \<lparr>data_' = ptr_add (key_' k) U, size_' = left\<rparr> =
      Inr (take left (drop U old))"
    using key_slice [OF ok held, of left U] l1 by simp
  have s3: "slice_bytes k \<lparr>data_' = ptr_add (key_' k) (U + left), size_' = si - left\<rparr> =
      Inr (take (si - left) (drop (U + left) old))"
    using key_slice [OF ok held, of "si - left" "U + left"] l1 by simp
  have s4: "slice_bytes k \<lparr>data_' = Extern d, size_' = non_shared_len\<rparr> =
      Inr (take non_shared_len d)"
    using Extern_slice_0 [OF nl] .
  have s5: "slice_bytes k \<lparr>data_' = Extern (replicate ts_sz 0), size_' = ts_sz\<rparr> =
      Inr (replicate ts_sz 0)"
    using Extern_slice_0 [of ts_sz "replicate ts_sz 0" k] by simp
  show ?thesis
    using ik total c l1
    by (simp add: TrimAppendWithTimestamp_def Let_def kNumInternalBytes_def U su si l2 l3
        MaybeAddKeyPartsWithTimestamp_def ptr_add_add s1 s2 s3 s4 s5)
qed

lemma TrimAppendWithTimestamp_in_suffix:
  assumes ok: "IterKey_ok k" and held: "slice_bytes k (GetKey k) = Inr old"
    and ik: "\<not> IsUserKey k" and nl: "non_shared_len \<le> length d"
    and U: "size_sub (key_size_' k) 8 = U"
    and su: "min shared_len (size_sub U ts_sz) = su"
    and si: "size_sub shared_len su = si"
    and left: "left = non_shared_len - 8"
    and c: "8 \<le> non_shared_len"
    and su_ok: "su \<le> key_size_' k" and si_ok: "si = 0 \<or> U + si \<le> key_size_' k"
  shows "TrimAppendWithTimestamp k shared_len (Extern d) non_shared_len ts_sz =
     SetKey k
       \<lparr>data_' = Extern (take su old @ take si (drop U old) @ take left d @
           replicate ts_sz 0 @ take (non_shared_len - left) (drop left d)),
        size_' = length (take su old @ take si (drop U old) @ take left d @
           replicate ts_sz 0 @ take (non_shared_len - left) (drop left d))\<rparr>
       True"
proof -
  have l1: "left \<le> non_shared_len" "left \<le> length d"
    using left nl by simp_all
  have l2: "size_sub non_shared_len 8 = left"
    using c left by (simp add: size_sub_def)
  have l3: "size_sub non_shared_len left = non_shared_len - left"
    using l1 by (simp add: size_sub_def)
  have s1: "slice_bytes k \<lparr>data_' = key_' k, size_' = su\<rparr> = Inr (take su old)"
    using key_slice_0 [OF ok held su_ok] .
  have s2: "slice_bytes k \<lparr>data_' = ptr_add (key_' k) U, size_' = si\<rparr> =
      Inr (take si (drop U old))"
    using key_slice [OF ok held, of si U] si_ok by simp
  have s3: "slice_bytes k \<lparr>data_' = Extern d, size_' = left\<rparr> = Inr (take left d)"
    using Extern_slice_0 [OF l1(2)] .
  have s4: "slice_bytes k \<lparr>data_' = Extern (drop left d), size_' = non_shared_len - left\<rparr> =
      Inr (take (non_shared_len - left) (drop left d))"
    using Extern_slice [of left "non_shared_len - left" d k] l1 nl by simp
  have s5: "slice_bytes k \<lparr>data_' = Extern (replicate ts_sz 0), size_' = ts_sz\<rparr> =
      Inr (replicate ts_sz 0)"
    using Extern_slice_0 [of ts_sz "replicate ts_sz 0" k] by simp
  show ?thesis
    using ik c l1
    by (simp add: TrimAppendWithTimestamp_def Let_def kNumInternalBytes_def U su si l2 l3
        MaybeAddKeyPartsWithTimestamp_def s1 s2 s3 s4 s5)
qed

lemma pad_in_prefix:
  assumes "length p1 = su" and "length p2 = si" and "length p3 = n"
    and "left = su + si + n - 8" and "si + n < 8" and "8 \<le> su + si + n"
  shows "PadInternalKeyWithMinTimestamp (p1 @ p2 @ p3) ts_sz =
     take left p1 @ replicate ts_sz 0 @ drop left p1 @ p2 @ p3"
  using assms by (simp add: PadInternalKeyWithMinTimestamp_def kNumInternalBytes_def ac_simps)

lemma pad_in_footer:
  assumes "length p1 = su" and "length p2 = si" and "length p3 = n"
    and "left = si + n - 8" and "8 \<le> si + n" and "n < 8"
  shows "PadInternalKeyWithMinTimestamp (p1 @ p2 @ p3) ts_sz =
     p1 @ take left p2 @ replicate ts_sz 0 @ drop left p2 @ p3"
  using assms by (simp add: PadInternalKeyWithMinTimestamp_def kNumInternalBytes_def ac_simps)

lemma pad_in_suffix:
  assumes "length p1 = su" and "length p2 = si" and "length p3 = n"
    and "left = n - 8" and "8 \<le> n"
  shows "PadInternalKeyWithMinTimestamp (p1 @ p2 @ p3) ts_sz =
     p1 @ p2 @ take left p3 @ replicate ts_sz 0 @ drop left p3"
  using assms by (simp add: PadInternalKeyWithMinTimestamp_def kNumInternalBytes_def ac_simps)


section \<open>The claims about the codec and the comparator\<close>

text \<open>
  C9.  \<open>UnPackSequenceAndType\<close> is total and never fails: for every 64-bit packed value,
  whatever its low byte and its high 56 bits are, it returns \<open>*seq = packed >> 8\<close> and
  \<open>*t = packed & 0xff\<close>; it has no failing branch (its result type carries no fault),
  and the two results together still determine \<open>packed\<close>.
\<close>

theorem UnPackSequenceAndType_total:
  "fst (UnPackSequenceAndType packed) = drop_bit 8 packed \<and>
   snd (UnPackSequenceAndType packed) = ucast (packed AND 0xff) \<and>
   unat (fst (UnPackSequenceAndType packed)) = unat packed div 256 \<and>
   unat (snd (UnPackSequenceAndType packed)) = unat packed mod 256 \<and>
   push_bit 8 (fst (UnPackSequenceAndType packed)) OR
     ucast (snd (UnPackSequenceAndType packed)) = packed"
  by (simp add: UnPackSequenceAndType_def unat_tag unat_seq repack)

text \<open>
  C1.  For augmented keys \<open>a\<close> and \<open>b\<close> of at least 8 bytes, with the user key of each
  its bytes but the last 8 and the footer its last 8 bytes decoded,
  \<open>InternalKeyComparator::Compare\<close> returns: the user comparator's result on the two
  user keys when that is not zero; otherwise \<open>-1\<close>/\<open>+1\<close> as the sequence number
  \<open>footer >> 8\<close> of \<open>a\<close> is greater/smaller than the one of \<open>b\<close> (descending); and with
  equal sequence numbers \<open>-1\<close>/\<open>+1\<close> as the tag \<open>footer & 0xff\<close> of \<open>a\<close> is
  greater/smaller (descending), \<open>0\<close> when both footers agree.  In particular, on the
  encodings of \<open>(u, sa, ta)\<close> and \<open>(v, sb, tb)\<close> it orders by the user comparator on \<open>u\<close>
  and \<open>v\<close>, then by \<open>sa\<close> and \<open>sb\<close> descending, then by \<open>ta\<close> and \<open>tb\<close> descending.
\<close>

theorem Compare_order:
  "(8 \<le> length a \<and> 8 \<le> length b \<longrightarrow>
      Compare cmp a b =
        Inr (let ua = take (length a - 8) a;
                 ub = take (length b - 8) b;
                 fa = DecodeFixed64 (drop (length a - 8) a);
                 fb = DecodeFixed64 (drop (length b - 8) b)
             in if user_comparator_' cmp ua ub \<noteq> 0 then user_comparator_' cmp ua ub
                else if drop_bit 8 fa > drop_bit 8 fb then - 1
                else if drop_bit 8 fa < drop_bit 8 fb then 1
                else if (ucast (fa AND 0xff) :: ValueType) > ucast (fb AND 0xff) then - 1
                else if (ucast (fa AND 0xff) :: ValueType) < ucast (fb AND 0xff) then 1
                else 0)) \<and>
   (sa \<le> kMaxSequenceNumber \<and> sb \<le> kMaxSequenceNumber \<and>
    IsExtendedValueType ta \<and> IsExtendedValueType tb \<longrightarrow>
      (\<exists>ka kb.
         AppendInternalKey [] \<lparr>user_key = u, sequence = sa, type = ta\<rparr> = Inr ka \<and>
         AppendInternalKey [] \<lparr>user_key = v, sequence = sb, type = tb\<rparr> = Inr kb \<and>
         ka = u @ EncodeFixed64 (push_bit 8 sa OR ucast ta) \<and>
         kb = v @ EncodeFixed64 (push_bit 8 sb OR ucast tb) \<and>
         Compare cmp ka kb =
           Inr (if user_comparator_' cmp u v \<noteq> 0 then user_comparator_' cmp u v
                else if sa > sb then - 1
                else if sa < sb then 1
                else if ta > tb then - 1
                else if ta < tb then 1
                else 0)))"
proof (intro conjI impI)
  assume len: "8 \<le> length a \<and> 8 \<le> length b"
  let ?fa = "DecodeFixed64 (drop (length a - 8) a)"
  let ?fb = "DecodeFixed64 (drop (length b - 8) b)"
  show "Compare cmp a b =
        Inr (let ua = take (length a - 8) a;
                 ub = take (length b - 8) b;
                 fa = DecodeFixed64 (drop (length a - 8) a);
                 fb = DecodeFixed64 (drop (length b - 8) b)
             in if user_comparator_' cmp ua ub \<noteq> 0 then user_comparator_' cmp ua ub
                else if drop_bit 8 fa > drop_bit 8 fb then - 1
                else if drop_bit 8 fa < drop_bit 8 fb then 1
                else if (ucast (fa AND 0xff) :: ValueType) > ucast (fb AND 0xff) then - 1
                else if (ucast (fa AND 0xff) :: ValueType) < ucast (fb AND 0xff) then 1
                else 0)"
    using len
    by (auto simp add: Compare_def ExtractUserKey_ok DecodeFixed64_at_footer
        kNumInternalBytes_def ucast_and_ff Let_def footer_less [of ?fa ?fb]
        footer_less [of ?fb ?fa])
next
  assume h: "sa \<le> kMaxSequenceNumber \<and> sb \<le> kMaxSequenceNumber \<and>
    IsExtendedValueType ta \<and> IsExtendedValueType tb"
  then have sa: "sa \<le> kMaxSequenceNumber" and sb: "sb \<le> kMaxSequenceNumber"
    and ta: "IsExtendedValueType ta" and tb: "IsExtendedValueType tb"
    by simp_all
  have lt: "(push_bit 8 sa OR ucast ta < push_bit 8 sb OR (ucast tb :: uint64_t)) =
      (sa < sb \<or> (sa = sb \<and> ta < tb))"
    using pack_less [OF sa sb] .
  have gt: "(push_bit 8 sb OR ucast tb < push_bit 8 sa OR (ucast ta :: uint64_t)) =
      (sb < sa \<or> (sb = sa \<and> tb < ta))"
    using pack_less [OF sb sa] .
  have "Compare cmp (u @ EncodeFixed64 (push_bit 8 sa OR ucast ta))
          (v @ EncodeFixed64 (push_bit 8 sb OR ucast tb)) =
      Inr (if user_comparator_' cmp u v \<noteq> 0 then user_comparator_' cmp u v
           else if sa > sb then - 1
           else if sa < sb then 1
           else if ta > tb then - 1
           else if ta < tb then 1
           else 0)"
    unfolding Compare_encoded using lt gt by auto
  then show "\<exists>ka kb.
         AppendInternalKey [] \<lparr>user_key = u, sequence = sa, type = ta\<rparr> = Inr ka \<and>
         AppendInternalKey [] \<lparr>user_key = v, sequence = sb, type = tb\<rparr> = Inr kb \<and>
         ka = u @ EncodeFixed64 (push_bit 8 sa OR ucast ta) \<and>
         kb = v @ EncodeFixed64 (push_bit 8 sb OR ucast tb) \<and>
         Compare cmp ka kb =
           Inr (if user_comparator_' cmp u v \<noteq> 0 then user_comparator_' cmp u v
                else if sa > sb then - 1
                else if sa < sb then 1
                else if ta > tb then - 1
                else if ta < tb then 1
                else 0)"
    using sa sb ta tb by (simp add: AppendInternalKey_ok)
qed

theorem Compare_order_witness:
  "8 \<le> length [0x61, 0x01, 0x03, 0, 0, 0, 0, 0, 0 :: byte] \<and>
   8 \<le> length [0x62, 0x01, 0x05, 0, 0, 0, 0, 0, 0 :: byte] \<and>
   Compare BytewiseComparator [0x61, 0x01, 0x03, 0, 0, 0, 0, 0, 0]
     [0x62, 0x01, 0x05, 0, 0, 0, 0, 0, 0] = Inr (- 1) \<and>
   (5 :: uint64_t) \<le> kMaxSequenceNumber \<and> (3 :: uint64_t) \<le> kMaxSequenceNumber \<and>
   IsExtendedValueType kTypeValue \<and>
   AppendInternalKey [] \<lparr>user_key = [0x61], sequence = 5, type = kTypeValue\<rparr> =
     Inr [0x61, 0x01, 0x05, 0, 0, 0, 0, 0, 0] \<and>
   AppendInternalKey [] \<lparr>user_key = [0x61], sequence = 3, type = kTypeValue\<rparr> =
     Inr [0x61, 0x01, 0x03, 0, 0, 0, 0, 0, 0] \<and>
   Compare BytewiseComparator [0x61, 0x01, 0x05, 0, 0, 0, 0, 0, 0]
     [0x61, 0x01, 0x03, 0, 0, 0, 0, 0, 0] = Inr (- 1)"
proof -
  have enc: "EncodeFixed64 (push_bit 8 5 OR ucast kTypeValue) = [0x01, 0x05, 0, 0, 0, 0, 0, 0]"
    "EncodeFixed64 (push_bit 8 3 OR ucast kTypeValue) = [0x01, 0x03, 0, 0, 0, 0, 0, 0]"
    by (simp_all add: EncodeFixed64_def kTypeValue_def)
  have hyp: "(5 :: uint64_t) \<le> kMaxSequenceNumber" "(3 :: uint64_t) \<le> kMaxSequenceNumber"
    "IsExtendedValueType kTypeValue"
    by (simp_all add: kMaxSequenceNumber_value IsExtendedValueType_kTypeValue)
  have user: "user_comparator_' BytewiseComparator [0x61] [0x62] = - 1"
    "user_comparator_' BytewiseComparator [0x61] [0x61] = 0"
    by (simp_all add: BytewiseComparator_def)
  show ?thesis
    using Compare_order [of "[0x61, 0x01, 0x03, 0, 0, 0, 0, 0, 0]"
        "[0x62, 0x01, 0x05, 0, 0, 0, 0, 0, 0]" BytewiseComparator 5 3 kTypeValue kTypeValue
        "[0x61]" "[0x61]"]
      hyp enc user
    by (auto simp add: Let_def)
qed

text \<open>
  C10.  For augmented keys \<open>a\<close> and \<open>b\<close> of at least 8 bytes, the overload of \<open>Compare\<close>
  with both global sequence numbers set to \<open>kDisableGlobalSequenceNumber\<close> returns what
  the plain \<open>Compare\<close> returns, and both return a value.
\<close>

theorem Compare_global_seqno_disabled:
  assumes "8 \<le> length a" and "8 \<le> length b"
  shows "Compare_global_seqno cmp a kDisableGlobalSequenceNumber b kDisableGlobalSequenceNumber
           = Compare cmp a b \<and>
         (\<exists>r. Compare cmp a b = Inr r)"
  using assms
  by (simp add: Compare_global_seqno_def Compare_def ExtractUserKey_ok
      ExtractInternalKeyFooter_ok DecodeFixed64_at_footer kNumInternalBytes_def Let_def)

theorem Compare_global_seqno_disabled_witness:
  "8 \<le> length [0x61, 0x01, 0x05, 0, 0, 0, 0, 0, 0 :: byte] \<and>
   8 \<le> length [0x61, 0x01, 0x03, 0, 0, 0, 0, 0, 0 :: byte] \<and>
   Compare_global_seqno BytewiseComparator [0x61, 0x01, 0x05, 0, 0, 0, 0, 0, 0]
     kDisableGlobalSequenceNumber [0x61, 0x01, 0x03, 0, 0, 0, 0, 0, 0]
     kDisableGlobalSequenceNumber = Inr (- 1)"
  using Compare_global_seqno_disabled [of "[0x61, 0x01, 0x05, 0, 0, 0, 0, 0, 0]"
      "[0x61, 0x01, 0x03, 0, 0, 0, 0, 0, 0]" BytewiseComparator]
  by (simp add: Compare_def ExtractUserKey_def DecodeFixed64_at_def
      read_at_def DecodeFixed64_def kNumInternalBytes_def BytewiseComparator_def)

text \<open>
  C2.  For every user key, every sequence number up to \<open>kMaxSequenceNumber\<close> and every
  tag accepted by \<open>IsExtendedValueType\<close>, \<open>AppendInternalKey\<close> on an empty string yields the
  user key followed by the 8-byte footer \<open>(seq << 8) | tag\<close>, and \<open>ParseInternalKey\<close> of
  these bytes returns \<open>OK\<close> and the same user key, sequence number and tag, with
  assertions compiled in or out.
\<close>

theorem AppendInternalKey_ParseInternalKey:
  assumes "seq \<le> kMaxSequenceNumber" and "IsExtendedValueType t"
  shows "\<exists>ikey.
     AppendInternalKey [] \<lparr>user_key = uk, sequence = seq, type = t\<rparr> = Inr ikey \<and>
     ikey = uk @ EncodeFixed64 (push_bit 8 seq OR ucast t) \<and>
     ParseInternalKey NDEBUG ikey result log_err_key =
       Inr (OK, \<lparr>user_key = uk, sequence = seq, type = t\<rparr>)"
  using assms IsExtendedValueType_le_kMaxValue [OF assms(2)]
  by (simp add: AppendInternalKey_def PackSequenceAndType_def ParseInternalKey_def
      kNumInternalBytes_def length_EncodeFixed64 DecodeFixed64_at_def read_at_def
      DecodeFixed64_EncodeFixed64 ucast_and_ff unpack_pack_seq unpack_pack_type
      del: drop_bit_or)

theorem AppendInternalKey_ParseInternalKey_witness:
  "(5 :: uint64_t) \<le> kMaxSequenceNumber \<and> IsExtendedValueType kTypeValue \<and>
   AppendInternalKey [] \<lparr>user_key = [0x61], sequence = 5, type = kTypeValue\<rparr>
     = Inr [0x61, 0x01, 0x05, 0, 0, 0, 0, 0, 0] \<and>
   ParseInternalKey False [0x61, 0x01, 0x05, 0, 0, 0, 0, 0, 0]
       \<lparr>user_key = [], sequence = 0, type = 0\<rparr> False
     = Inr (OK, \<lparr>user_key = [0x61], sequence = 5, type = kTypeValue\<rparr>) \<and>
   ParseInternalKey True [0x61, 0x01, 0x05, 0, 0, 0, 0, 0, 0]
       \<lparr>user_key = [], sequence = 0, type = 0\<rparr> False
     = Inr (OK, \<lparr>user_key = [0x61], sequence = 5, type = kTypeValue\<rparr>)"
proof -
  have low: "(1281 :: byte) = 1" by simp
  show ?thesis
    using
      AppendInternalKey_ParseInternalKey [of 5 kTypeValue "[0x61]" False
        "\<lparr>user_key = [], sequence = 0, type = 0\<rparr>" False]
      AppendInternalKey_ParseInternalKey [of 5 kTypeValue "[0x61]" True
        "\<lparr>user_key = [], sequence = 0, type = 0\<rparr>" False]
    by (simp add: kMaxSequenceNumber_def IsExtendedValueType_def IsValueType_def ValueType_defs
        EncodeFixed64_def low)
qed

text \<open>
  What \<open>ParseInternalKey\<close> returns, for either build.  It never reads outside the given
  bytes.  On fewer than 8 bytes it returns \<open>Corruption\<close> and leaves \<open>*result\<close> alone.  On
  at least 8 bytes, with \<open>footer\<close> the last 8 bytes decoded and \<open>t = footer & 0xff\<close>: if
  \<open>t\<close> is accepted by \<open>IsExtendedValueType\<close> it returns \<open>OK\<close> with the first \<open>len - 8\<close>
  bytes as user key, \<open>footer >> 8\<close> as sequence number and \<open>t\<close> as type; if \<open>t\<close> is not
  accepted it returns \<open>Corruption\<close>, provided assertions are compiled out or
  \<open>t \<le> kMaxValue\<close>.  So without assertions the status is \<open>Corruption\<close> exactly when
  the key is shorter than 8 bytes or its tag is outside the extended classification.
\<close>

lemma ParseInternalKey_status:
  "ParseInternalKey NDEBUG k result log_err_key \<noteq> Inl OutOfBounds \<and>
   (length k < 8 \<longrightarrow>
      ParseInternalKey NDEBUG k result log_err_key =
        Inr (Corruption ''Corrupted Key: Internal Key too small. Size='', result)) \<and>
   (8 \<le> length k \<longrightarrow>
      (let num = DecodeFixed64 (drop (length k - 8) k);
           t = (ucast (num AND 0xff) :: ValueType);
           parsed = \<lparr>user_key = take (length k - 8) k, sequence = drop_bit 8 num, type = t\<rparr>
       in (IsExtendedValueType t \<longrightarrow>
             ParseInternalKey NDEBUG k result log_err_key = Inr (OK, parsed)) \<and>
          (\<not> IsExtendedValueType t \<and> (NDEBUG \<or> t \<le> kMaxValue) \<longrightarrow>
             ParseInternalKey NDEBUG k result log_err_key =
               Inr (Corruption ''Corrupted Key'', parsed)))) \<and>
   (NDEBUG \<longrightarrow>
      (\<exists>m r. ParseInternalKey NDEBUG k result log_err_key = Inr (Corruption m, r)) =
      (length k < 8 \<or>
       \<not> IsExtendedValueType (ucast (DecodeFixed64 (drop (length k - 8) k) AND 0xff))))"
proof (cases "length k < 8")
  case True
  then show ?thesis
    by (simp add: ParseInternalKey_def kNumInternalBytes_def)
next
  case False
  then have len: "8 \<le> length k" by simp
  show ?thesis
    using len IsExtendedValueType_le_kMaxValue
      [of "ucast (DecodeFixed64 (drop (length k - 8) k))"]
    by (auto simp add: ParseInternalKey_def kNumInternalBytes_def DecodeFixed64_at_footer
        Let_def ucast_and_ff)
qed

lemma ParseInternalKey_status_examples:
  "ParseInternalKey True [0x61, 0x01, 0x05] \<lparr>user_key = [], sequence = 0, type = 0\<rparr> False
     = Inr (Corruption ''Corrupted Key: Internal Key too small. Size='',
            \<lparr>user_key = [], sequence = 0, type = 0\<rparr>) \<and>
   ParseInternalKey True [0x61, 0x01, 0x05, 0, 0, 0, 0, 0, 0]
       \<lparr>user_key = [], sequence = 0, type = 0\<rparr> False
     = Inr (OK, \<lparr>user_key = [0x61], sequence = 5, type = kTypeValue\<rparr>) \<and>
   ParseInternalKey True [0x61, 0x03, 0x05, 0, 0, 0, 0, 0, 0]
       \<lparr>user_key = [], sequence = 0, type = 0\<rparr> False
     = Inr (Corruption ''Corrupted Key'', \<lparr>user_key = [0x61], sequence = 5, type = 0x03\<rparr>) \<and>
   ParseInternalKey True [0x61, 0x80, 0x05, 0, 0, 0, 0, 0, 0]
       \<lparr>user_key = [], sequence = 0, type = 0\<rparr> False
     = Inr (Corruption ''Corrupted Key'', \<lparr>user_key = [0x61], sequence = 5, type = 0x80\<rparr>)"
  using
    ParseInternalKey_status [of True "[0x61, 0x01, 0x05]"
      "\<lparr>user_key = [], sequence = 0, type = 0\<rparr>" False]
    ParseInternalKey_status [of True "[0x61, 0x01, 0x05, 0, 0, 0, 0, 0, 0]"
      "\<lparr>user_key = [], sequence = 0, type = 0\<rparr>" False]
    ParseInternalKey_status [of True "[0x61, 0x03, 0x05, 0, 0, 0, 0, 0, 0]"
      "\<lparr>user_key = [], sequence = 0, type = 0\<rparr>" False]
    ParseInternalKey_status [of True "[0x61, 0x80, 0x05, 0, 0, 0, 0, 0, 0]"
      "\<lparr>user_key = [], sequence = 0, type = 0\<rparr>" False]
  by (simp add: DecodeFixed64_def IsExtendedValueType_def IsValueType_def ValueType_defs Let_def)

text \<open>
  C3.  \<open>ParseInternalKey\<close> is to return a \<open>Corruption\<close> status exactly when the key is
  shorter than 8 bytes or its tag byte is outside the extended classification, and never
  to read outside the given bytes.  On the 8 bytes \<open>0x80 0 0 0 0 0 0 0\<close>, whose tag
  \<open>0x80\<close> is outside the classification, the build without assertions returns
  \<open>Corruption\<close>, as stated; the build with assertions stops at
  \<open>assert(result->type <= ValueType::kMaxValue)\<close> and returns no status, although the tag
  \<open>0x1a\<close>, outside the classification as well, gets \<open>Corruption\<close> there.
\<close>

theorem ParseInternalKey_high_tag_builds:
  "\<not> IsExtendedValueType (ucast (DecodeFixed64 [0x80, 0, 0, 0, 0, 0, 0, 0] AND 0xff)) \<and>
   ParseInternalKey True [0x80, 0, 0, 0, 0, 0, 0, 0]
       \<lparr>user_key = [], sequence = 0, type = 0\<rparr> False
     = Inr (Corruption ''Corrupted Key'', \<lparr>user_key = [], sequence = 0, type = 0x80\<rparr>) \<and>
   ParseInternalKey False [0x80, 0, 0, 0, 0, 0, 0, 0]
       \<lparr>user_key = [], sequence = 0, type = 0\<rparr> False
     = Inl AssertionFailed \<and>
   \<not> IsExtendedValueType (ucast (DecodeFixed64 [0x1a, 0, 0, 0, 0, 0, 0, 0] AND 0xff)) \<and>
   ParseInternalKey False [0x1a, 0, 0, 0, 0, 0, 0, 0]
       \<lparr>user_key = [], sequence = 0, type = 0\<rparr> False
     = Inr (Corruption ''Corrupted Key'', \<lparr>user_key = [], sequence = 0, type = 0x1a\<rparr>)"
  by (simp add: ParseInternalKey_def DecodeFixed64_at_def read_at_def DecodeFixed64_def
      kNumInternalBytes_def IsExtendedValueType_def IsValueType_def ValueType_defs Let_def)

text \<open>
  C6, as amended.  For every user key \<open>u\<close> the user comparator holds equal to itself,
  every seek tag accepted by \<open>IsExtendedValueType\<close>, and every augmented key \<open>real\<close> with
  user key \<open>u\<close>, a sequence number up to \<open>kMaxSequenceNumber\<close> and an extended tag:
  the key built by \<open>SetMaxPossibleForUserKey\<close> on a fresh \<open>InternalKey\<close> (sequence 0,
  tag 0) compares greater than or equal to \<open>real\<close>, and equal only to the key with
  sequence 0 and tag 0, which has the same bytes; the key built by
  \<open>SetMinPossibleForUserKey\<close> (sequence \<open>kMaxSequenceNumber\<close>, the seek tag) compares
  less than \<open>real\<close> whenever the sequence number of \<open>real\<close> is below
  \<open>kMaxSequenceNumber\<close>.
\<close>

theorem min_max_possible_for_user_key:
  assumes "user_comparator_' cmp u u = 0"
    and "IsExtendedValueType kValueTypeForSeek"
    and "s \<le> kMaxSequenceNumber" and "IsExtendedValueType t"
  shows "\<exists>kmax kmin real rmax.
      SetMaxPossibleForUserKey \<lparr>rep_' = []\<rparr> u = Inr kmax \<and>
      SetMinPossibleForUserKey kValueTypeForSeek \<lparr>rep_' = []\<rparr> u = Inr kmin \<and>
      AppendInternalKey [] \<lparr>user_key = u, sequence = s, type = t\<rparr> = Inr real \<and>
      Compare cmp (rep_' kmax) real = Inr rmax \<and> 0 \<le> rmax \<and>
      (rmax = 0) = (s = 0 \<and> t = 0) \<and>
      (s < kMaxSequenceNumber \<longrightarrow> Compare cmp (rep_' kmin) real = Inr (- 1))"
proof -
  let ?real = "u @ EncodeFixed64 (push_bit 8 s OR ucast t)"
  have zero: "(0 :: uint64_t) \<le> kMaxSequenceNumber" by simp
  have kmax: "SetMaxPossibleForUserKey \<lparr>rep_' = []\<rparr> u =
      Inr \<lparr>rep_' = u @ EncodeFixed64 (push_bit 8 0 OR ucast (0 :: byte))\<rparr>"
    by (simp add: SetMaxPossibleForUserKey_def AppendInternalKey_ok [OF zero IsExtendedValueType_0])
  have kmin: "SetMinPossibleForUserKey kValueTypeForSeek \<lparr>rep_' = []\<rparr> u =
      Inr \<lparr>rep_' = u @ EncodeFixed64 (push_bit 8 kMaxSequenceNumber OR ucast kValueTypeForSeek)\<rparr>"
    using assms(2) by (simp add: SetMinPossibleForUserKey_def AppendInternalKey_ok)
  have real: "AppendInternalKey [] \<lparr>user_key = u, sequence = s, type = t\<rparr> = Inr ?real"
    using assms(3,4) by (simp add: AppendInternalKey_ok)
  have nz: "(push_bit 8 s OR ucast t = (0 :: uint64_t)) = (s = 0 \<and> t = 0)"
    using pack_eq [OF assms(3) zero, of t 0] by simp
  have cmax: "Compare cmp (u @ EncodeFixed64 (push_bit 8 0 OR ucast (0 :: byte))) ?real =
      Inr (if s = 0 \<and> t = 0 then 0 else 1)"
    using assms(1) nz by (simp add: Compare_encoded word_gt_0)
  have cmin: "s < kMaxSequenceNumber \<Longrightarrow>
      Compare cmp (u @ EncodeFixed64 (push_bit 8 kMaxSequenceNumber OR ucast kValueTypeForSeek))
        ?real = Inr (- 1)"
    using assms(1) pack_less [OF assms(3) order_refl, of t kValueTypeForSeek]
    by (simp add: Compare_encoded)
  show ?thesis
    using kmax kmin real cmax cmin by simp
qed

theorem min_max_possible_for_user_key_witness:
  "user_comparator_' BytewiseComparator [0x61] [0x61] = 0 \<and>
   IsExtendedValueType kTypeWideColumnEntity \<and>
   (5 :: uint64_t) \<le> kMaxSequenceNumber \<and> IsExtendedValueType kTypeValue \<and>
   (5 :: uint64_t) < kMaxSequenceNumber \<and>
   Compare BytewiseComparator [0x61, 0, 0, 0, 0, 0, 0, 0, 0]
     [0x61, 0x01, 0x05, 0, 0, 0, 0, 0, 0] = Inr 1 \<and>
   Compare BytewiseComparator [0x61, 0x16, 0xff, 0xff, 0xff, 0xff, 0xff, 0xff, 0xff]
     [0x61, 0x01, 0x05, 0, 0, 0, 0, 0, 0] = Inr (- 1)"
  using min_max_possible_for_user_key [of BytewiseComparator "[0x61]"
      kTypeWideColumnEntity 5 kTypeValue]
  by (simp add: BytewiseComparator_def IsExtendedValueType_def IsValueType_def
      ValueType_defs kMaxSequenceNumber_value Compare_def ExtractUserKey_def
      DecodeFixed64_at_def read_at_def DecodeFixed64_def kNumInternalBytes_def)


text \<open>
  The first half of C6 as first stated (strictly after every real key) fails on the
  deletion with sequence number 0: it is the key \<open>SetMaxPossibleForUserKey\<close> builds,
  and \<open>Compare\<close> returns 0 on it.
\<close>

theorem SetMaxPossibleForUserKey_counterexample:
  "SetMaxPossibleForUserKey \<lparr>rep_' = []\<rparr> [0x61] =
     Inr \<lparr>rep_' = [0x61, 0, 0, 0, 0, 0, 0, 0, 0]\<rparr> \<and>
   AppendInternalKey [] \<lparr>user_key = [0x61], sequence = 0, type = kTypeDeletion\<rparr> =
     Inr [0x61, 0, 0, 0, 0, 0, 0, 0, 0] \<and>
   Compare BytewiseComparator [0x61, 0, 0, 0, 0, 0, 0, 0, 0] [0x61, 0, 0, 0, 0, 0, 0, 0, 0]
     = Inr 0"
  by (simp add: SetMaxPossibleForUserKey_def AppendInternalKey_def PackSequenceAndType_def
      IsExtendedValueType_def IsValueType_def ValueType_defs EncodeFixed64_def
      BytewiseComparator_def Compare_def ExtractUserKey_def
      DecodeFixed64_at_def read_at_def DecodeFixed64_def kNumInternalBytes_def)


text \<open>
  C4.  For a range tombstone whose end key is at least as long as its timestamp, let
  \<open>b\<close> be the end user key with its timestamp replaced by the all-\<open>0xff\<close> timestamp of
  the same width (the end key itself when no timestamp is set).  Then
  \<open>SerializeEndKey\<close> produces the augmented key \<open>(b, kMaxSequenceNumber,
  kTypeRangeDeletion)\<close>.  Let \<open>lit\<close> be the literal key: \<open>b\<close> at any timestamp, which the
  user comparator orders at or after \<open>b\<close> (a comparator aware of timestamps puts the
  maximum timestamp first; without timestamps \<open>lit\<close> is \<open>b\<close>).  For every sequence number
  up to \<open>kMaxSequenceNumber\<close>, \<open>Compare\<close> of the serialized end key with the augmented key
  \<open>(lit, seq, kTypeValue)\<close> is negative, and it is \<open>-1\<close> by the footers alone when the user
  comparator holds \<open>b\<close> and \<open>lit\<close> equal.
\<close>

theorem SerializeEndKey_below:
  assumes "length (ts_' r) \<le> length (end_key_' r)"
    and "b = take (length (end_key_' r) - length (ts_' r)) (end_key_' r) @
             replicate (length (ts_' r)) 0xff"
    and "user_comparator_' cmp b lit \<le> 0"
    and "s \<le> kMaxSequenceNumber"
  shows "\<exists>e k res.
      SerializeEndKey r = Inr e \<and>
      AppendInternalKey []
        \<lparr>user_key = b, sequence = kMaxSequenceNumber, type = kTypeRangeDeletion\<rparr>
        = Inr (rep_' e) \<and>
      rep_' e = b @ EncodeFixed64 (push_bit 8 kMaxSequenceNumber OR ucast kTypeRangeDeletion) \<and>
      AppendInternalKey [] \<lparr>user_key = lit, sequence = s, type = kTypeValue\<rparr> = Inr k \<and>
      Compare cmp (rep_' e) k = Inr res \<and> res < 0 \<and>
      (user_comparator_' cmp b lit = 0 \<longrightarrow> res = - 1)"
proof -
  let ?e = "b @ EncodeFixed64 (push_bit 8 kMaxSequenceNumber OR ucast kTypeRangeDeletion)"
  let ?lit = "lit @ EncodeFixed64 (push_bit 8 s OR ucast kTypeValue)"
  have pack: "PackSequenceAndType kMaxSequenceNumber kTypeRangeDeletion =
      Inr (push_bit 8 kMaxSequenceNumber OR ucast kTypeRangeDeletion)"
    by (simp add: PackSequenceAndType_ok IsExtendedValueType_kTypeRangeDeletion)
  have ser: "SerializeEndKey r = Inr \<lparr>rep_' = ?e\<rparr>"
  proof (cases "ts_' r = []")
    case True
    then show ?thesis
      using assms(2)
      by (simp add: SerializeEndKey_def InternalKey_new_def AppendInternalKey_def pack)
  next
    case False
    then show ?thesis
      using assms(1,2)
      by (simp add: SerializeEndKey_def InternalKey_new_ts_def
          AppendInternalKeyWithDifferentTimestamp_def pack kTsMax_replicate)
  qed
  have e: "AppendInternalKey []
        \<lparr>user_key = b, sequence = kMaxSequenceNumber, type = kTypeRangeDeletion\<rparr> = Inr ?e"
    by (simp add: AppendInternalKey_ok IsExtendedValueType_kTypeRangeDeletion)
  have lit: "AppendInternalKey [] \<lparr>user_key = lit, sequence = s, type = kTypeValue\<rparr> = Inr ?lit"
    using assms(4) by (simp add: AppendInternalKey_ok IsExtendedValueType_kTypeValue)
  have tags: "kTypeValue < kTypeRangeDeletion"
    by (simp add: ValueType_defs)
  have less: "push_bit 8 s OR ucast kTypeValue <
      push_bit 8 kMaxSequenceNumber OR (ucast kTypeRangeDeletion :: uint64_t)"
    using pack_less [OF assms(4) order_refl, of kTypeValue kTypeRangeDeletion] assms(4) tags
    by auto
  have cmp: "Compare cmp ?e ?lit =
      Inr (if user_comparator_' cmp b lit = 0 then - 1 else user_comparator_' cmp b lit)"
    using less by (simp add: Compare_encoded)
  show ?thesis
    using ser e lit cmp assms(3) by auto
qed

theorem SerializeEndKey_below_witness:
  "length (ts_' \<lparr>start_key_' = [0x61, 7], end_key_' = [0x6d, 7], seq_' = 5, ts_' = [7]\<rparr>)
     \<le> length (end_key_' \<lparr>start_key_' = [0x61, 7], end_key_' = [0x6d, 7], seq_' = 5, ts_' = [7]\<rparr>) \<and>
   user_comparator_' (TimestampComparator 1) [0x6d, 0xff] [0x6d, 7] \<le> 0 \<and>
   user_comparator_' (TimestampComparator 1) [0x6d, 0xff] [0x6d, 0xff] \<le> 0 \<and>
   (1 :: uint64_t) \<le> kMaxSequenceNumber \<and>
   SerializeEndKey \<lparr>start_key_' = [0x61, 7], end_key_' = [0x6d, 7], seq_' = 5, ts_' = [7]\<rparr>
     = Inr \<lparr>rep_' = [0x6d, 0xff, 0x0f, 0xff, 0xff, 0xff, 0xff, 0xff, 0xff, 0xff]\<rparr> \<and>
   Compare (TimestampComparator 1)
     [0x6d, 0xff, 0x0f, 0xff, 0xff, 0xff, 0xff, 0xff, 0xff, 0xff]
     [0x6d, 7, 0x01, 0x01, 0, 0, 0, 0, 0, 0] = Inr (- 1) \<and>
   Compare (TimestampComparator 1)
     [0x6d, 0xff, 0x0f, 0xff, 0xff, 0xff, 0xff, 0xff, 0xff, 0xff]
     [0x6d, 0xff, 0x01, 0x01, 0, 0, 0, 0, 0, 0] = Inr (- 1)"
  using
    SerializeEndKey_below [of
      "\<lparr>start_key_' = [0x61, 7], end_key_' = [0x6d, 7], seq_' = 5, ts_' = [7]\<rparr>"
      "[0x6d, 0xff]" "TimestampComparator 1" "[0x6d, 7]" 1]
    SerializeEndKey_below [of
      "\<lparr>start_key_' = [0x61, 7], end_key_' = [0x6d, 7], seq_' = 5, ts_' = [7]\<rparr>"
      "[0x6d, 0xff]" "TimestampComparator 1" "[0x6d, 0xff]" 1]
  by (simp add: TimestampComparator_def TimestampCompare_def kMaxSequenceNumber_value
      SerializeEndKey_def
      InternalKey_new_ts_def AppendInternalKeyWithDifferentTimestamp_def
      PackSequenceAndType_def IsExtendedValueType_def IsValueType_def ValueType_defs
      kTsMax_def EncodeFixed64_def Compare_def ExtractUserKey_def
      DecodeFixed64_at_def read_at_def DecodeFixed64_def kNumInternalBytes_def)

text \<open>
  The assumption on the user comparator is needed: the plain byte-wise order puts the
  timestamp 7 before the all-\<open>0xff\<close> timestamp, and the serialized end key then sorts
  after the literal key.
\<close>

lemma SerializeEndKey_bytewise_real_timestamp:
  "Compare BytewiseComparator
     [0x6d, 0xff, 0x0f, 0xff, 0xff, 0xff, 0xff, 0xff, 0xff, 0xff]
     [0x6d, 7, 0x01, 0x01, 0, 0, 0, 0, 0, 0] = Inr 1"
  by (simp add: BytewiseComparator_def Compare_def ExtractUserKey_def
      DecodeFixed64_at_def read_at_def DecodeFixed64_def kNumInternalBytes_def)

section \<open>The claims about the key builder\<close>

text \<open>
  C7.  For every well-formed \<open>IterKey\<close> holding the key bytes \<open>old\<close>, pinned or owned,
  every \<open>shared_len\<close> up to the held size and every suffix of \<open>non_shared_len\<close> readable
  bytes outside the builder's buffer, \<open>TrimAppend\<close> leaves the builder holding the first
  \<open>shared_len\<close> bytes of \<open>old\<close> followed by the suffix, in its own buffer (no longer
  pinned) and well-formed again; and replaying the delta sequence of any key list,
  starting from the held key, yields after each step exactly the key of the list.
\<close>

theorem TrimAppend_delta_decode:
  assumes "IterKey_ok k" and "slice_bytes k (GetKey k) = Inr old"
  shows "(shared_len \<le> key_size_' k \<and> non_shared_len \<le> length d \<longrightarrow>
      (\<exists>k'. TrimAppend k shared_len (Extern d) non_shared_len = Inr k' \<and>
         IterKey_ok k' \<and> \<not> IsKeyPinned k' \<and>
         slice_bytes k' (GetKey k') = Inr (take shared_len old @ take non_shared_len d))) \<and>
     replay k (delta_encode old keys) = Inr keys"
  using TrimAppend_step [OF assms, of shared_len non_shared_len d]
    replay_delta_encode [OF assms, of keys]
  by auto

theorem TrimAppend_delta_decode_witness:
  "SetKey IterKey_new \<lparr>data_' = Extern [0x61, 0x62, 0x63], size_' = 3\<rparr> False =
     Inr (IterKey_new\<lparr>key_' := Extern [0x61, 0x62, 0x63], key_size_' := 3\<rparr>) \<and>
   IsKeyPinned (IterKey_new\<lparr>key_' := Extern [0x61, 0x62, 0x63], key_size_' := 3\<rparr>) \<and>
   IterKey_ok (IterKey_new\<lparr>key_' := Extern [0x61, 0x62, 0x63], key_size_' := 3\<rparr>) \<and>
   slice_bytes (IterKey_new\<lparr>key_' := Extern [0x61, 0x62, 0x63], key_size_' := 3\<rparr>)
     (GetKey (IterKey_new\<lparr>key_' := Extern [0x61, 0x62, 0x63], key_size_' := 3\<rparr>))
     = Inr [0x61, 0x62, 0x63] \<and>
   and_then
     (TrimAppend (IterKey_new\<lparr>key_' := Extern [0x61, 0x62, 0x63], key_size_' := 3\<rparr>)
        2 (Extern [0x7a, 0x7b]) 1)
     (\<lambda>k'. slice_bytes k' (GetKey k')) = Inr [0x61, 0x62, 0x7a] \<and>
   delta_encode [0x61, 0x62, 0x63] [[0x61, 0x62, 0x64], [0x61, 0x63]] =
     [(2, [0x64]), (1, [0x63])] \<and>
   replay (IterKey_new\<lparr>key_' := Extern [0x61, 0x62, 0x63], key_size_' := 3\<rparr>)
     [(2, [0x64]), (1, [0x63])] = Inr [[0x61, 0x62, 0x64], [0x61, 0x63]]"
proof -
  let ?k = "IterKey_new\<lparr>key_' := Extern [0x61, 0x62, 0x63], key_size_' := 3\<rparr>"
  have set: "SetKey IterKey_new \<lparr>data_' = Extern [0x61, 0x62, 0x63], size_' = 3\<rparr> False = Inr ?k"
    by (simp add: SetKey_def SetKeyImpl_def)
  have pinned: "IsKeyPinned ?k"
    by (simp add: IsKeyPinned_def IterKey_new_def space_def)
  have ok: "IterKey_ok ?k"
    by (simp add: IterKey_ok_def IterKey_new_def space_def)
  have held: "slice_bytes ?k (GetKey ?k) = Inr [0x61, 0x62, 0x63]"
    by (simp add: slice_bytes_def GetKey_def read_at_def)
  have enc: "delta_encode [0x61, 0x62, 0x63] [[0x61, 0x62, 0x64], [0x61, 0x63]] =
     [(2, [0x64]), (1, [0x63])]"
    by simp
  have size: "key_size_' ?k = 3"
    by simp
  show ?thesis
    using TrimAppend_delta_decode [OF ok held, of 2 1 "[0x7a, 0x7b]"
        "[[0x61, 0x62, 0x64], [0x61, 0x63]]"]
    unfolding enc size
    using set pinned ok held enc by auto
qed

text \<open>
  C8.  For every well-formed \<open>IterKey\<close> that owns its key (not pinned) of size at least
  8 plus the size of the new timestamp, if one is given, \<open>IterKey::UpdateInternalKey\<close>
  returns with the same \<open>buf_\<close>, \<open>key_\<close>, \<open>key_size_\<close> and \<open>buf_size_\<close> and without any
  allocation; no block other than the buffer changes, and in the buffer the bytes
  before the timestamp and footer region and the bytes behind the key stay as they
  were; the held key becomes its old prefix, then the new timestamp (if given), then
  the eight bytes of \<open>(seq << 8) | t\<close>.  \<open>UpdateInternalKey\<close> on a string of at least 8
  bytes likewise keeps all but the last 8 bytes and the length.
\<close>

theorem UpdateInternalKey_in_place:
  assumes ok: "IterKey_ok k" and own: "\<not> IsKeyPinned k"
    and held: "slice_bytes k (GetKey k) = Inr old"
    and ts: "ts = map_option (\<lambda>b. \<lparr>data_' = Extern b, size_' = length b\<rparr>) new_ts"
    and tsb: "tsb = (case new_ts of None \<Rightarrow> [] | Some b \<Rightarrow> b)"
    and sz: "8 + length tsb \<le> key_size_' k"
    and nv: "newval = push_bit 8 seq OR ucast t"
  shows "\<exists>k' b. buf_' k = Mem b 0 \<and>
     IterKey_UpdateInternalKey k seq t ts = Inr k' \<and>
     buf_' k' = buf_' k \<and> key_' k' = key_' k \<and> key_size_' k' = key_size_' k \<and>
     buf_size_' k' = buf_size_' k \<and> allocations k' = allocations k \<and>
     (\<forall>b'. b' \<noteq> b \<longrightarrow> memory k' b' = memory k b') \<and>
     length (memory k' b) = length (memory k b) \<and>
     take (key_size_' k - 8 - length tsb) (memory k' b) =
       take (key_size_' k - 8 - length tsb) (memory k b) \<and>
     drop (key_size_' k) (memory k' b) = drop (key_size_' k) (memory k b) \<and>
     slice_bytes k' (GetKey k') =
       Inr (take (key_size_' k - 8 - length tsb) old @ tsb @ EncodeFixed64 newval) \<and>
     (8 \<le> length ikey \<longrightarrow>
        UpdateInternalKey ikey seq t =
          Inr (take (length ikey - 8) ikey @ EncodeFixed64 newval))"
proof -
  obtain b where b: "buf_' k = Mem b 0" and blen: "length (memory k b) = buf_size_' k"
    using IterKey_ok_buf [OF ok] by blast
  have keyb: "key_' k = buf_' k"
    using own by (simp add: IsKeyPinned_def)
  have fit: "key_size_' k \<le> buf_size_' k"
    using ok keyb b by (simp add: IterKey_ok_def)
  have old: "old = take (key_size_' k) (memory k b)"
    using held keyb b blen fit by (simp add: slice_bytes_def GetKey_def read_at_ok)
  let ?m = "take (key_size_' k - 8 - length tsb) (memory k b) @ tsb @
      EncodeFixed64 newval @ drop (key_size_' k) (memory k b)"
  have upd: "IterKey_UpdateInternalKey k seq t ts = Inr (k\<lparr>memory := (memory k)(b := ?m)\<rparr>)"
  proof (cases new_ts)
    case None
    then show ?thesis
      using IterKey_UpdateInternalKey_None [OF b keyb blen fit, of seq t] sz ts tsb nv
      by simp
  next
    case (Some bs)
    then show ?thesis
      using IterKey_UpdateInternalKey_Some [OF b keyb blen fit, of bs seq t] sz ts tsb nv
      by simp
  qed
  have lenm: "length ?m = length (memory k b)"
    using blen fit sz by (simp add: length_EncodeFixed64)
  have pre: "take (key_size_' k - 8 - length tsb) ?m =
      take (key_size_' k - 8 - length tsb) (memory k b)"
    using blen fit sz by simp
  have post: "drop (key_size_' k) ?m = drop (key_size_' k) (memory k b)"
    using blen fit sz by (simp add: length_EncodeFixed64)
  have new: "take (key_size_' k) ?m =
      take (key_size_' k - 8 - length tsb) old @ tsb @ EncodeFixed64 newval"
    using blen fit sz by (simp add: length_EncodeFixed64 old)
  have str: "8 \<le> length ikey \<Longrightarrow>
      UpdateInternalKey ikey seq t = Inr (take (length ikey - 8) ikey @ EncodeFixed64 newval)"
    by (simp add: UpdateInternalKey_def kNumInternalBytes_def Let_def write_at_ok
        length_EncodeFixed64 nv)
  have held': "slice_bytes (k\<lparr>memory := (memory k)(b := ?m)\<rparr>)
      (GetKey (k\<lparr>memory := (memory k)(b := ?m)\<rparr>)) =
      Inr (take (key_size_' k - 8 - length tsb) old @ tsb @ EncodeFixed64 newval)"
    using keyb b lenm blen fit new
    by (simp add: slice_bytes_def GetKey_def read_at_ok del: take_append drop_append)
  show ?thesis
    using b upd lenm pre post held' str
    by (simp del: take_append drop_append)
qed

theorem UpdateInternalKey_in_place_witness:
  "IterKey_ok
     (IterKey_new\<lparr>key_size_' := 12, is_user_key_' := False,
        memory := (memory IterKey_new)
          (Space := [0x61, 0x62, 1, 2, 1, 5, 0, 0, 0, 0, 0, 0] @ replicate 27 0)\<rparr>) \<and>
   \<not> IsKeyPinned
     (IterKey_new\<lparr>key_size_' := 12, is_user_key_' := False,
        memory := (memory IterKey_new)
          (Space := [0x61, 0x62, 1, 2, 1, 5, 0, 0, 0, 0, 0, 0] @ replicate 27 0)\<rparr>) \<and>
   and_then
     (IterKey_UpdateInternalKey
        (IterKey_new\<lparr>key_size_' := 12, is_user_key_' := False,
           memory := (memory IterKey_new)
             (Space := [0x61, 0x62, 1, 2, 1, 5, 0, 0, 0, 0, 0, 0] @ replicate 27 0)\<rparr>)
        7 kTypeValue (Some \<lparr>data_' = Extern [9, 9], size_' = 2\<rparr>))
     (\<lambda>k'. slice_bytes k' (GetKey k')) = Inr [0x61, 0x62, 9, 9, 1, 7, 0, 0, 0, 0, 0, 0] \<and>
   UpdateInternalKey [0x61, 1, 5, 0, 0, 0, 0, 0, 0] 7 kTypeValue =
     Inr [0x61, 1, 7, 0, 0, 0, 0, 0, 0]"
proof -
  let ?k = "IterKey_new\<lparr>key_size_' := 12, is_user_key_' := False,
        memory := (memory IterKey_new)
          (Space := [0x61, 0x62, 1, 2, 1, 5, 0, 0, 0, 0, 0, 0] @ replicate 27 0)\<rparr>"
  have ok: "IterKey_ok ?k"
    by (simp add: IterKey_ok_def IterKey_new_def space_def)
  have own: "\<not> IsKeyPinned ?k"
    by (simp add: IsKeyPinned_def IterKey_new_def)
  have held: "slice_bytes ?k (GetKey ?k) = Inr [0x61, 0x62, 1, 2, 1, 5, 0, 0, 0, 0, 0, 0]"
    by (simp add: slice_bytes_def GetKey_def IterKey_new_def space_def read_at_def)
  have enc: "EncodeFixed64 (push_bit 8 7 OR ucast kTypeValue) = [1, 7, 0, 0, 0, 0, 0, 0]"
    by (simp add: EncodeFixed64_def kTypeValue_def)
  have sz: "8 + length [9, 9 :: byte] \<le> key_size_' ?k"
    by simp
  show ?thesis
    using UpdateInternalKey_in_place [OF ok own held _ _ sz refl,
        of "Some \<lparr>data_' = Extern [9, 9], size_' = 2\<rparr>" "Some [9, 9]" 7 kTypeValue
           "[0x61, 1, 5, 0, 0, 0, 0, 0, 0]"]
      ok own enc
    by auto
qed

text \<open>
  C5.  For a well-formed \<open>IterKey\<close> in internal-key mode holding \<open>old\<close>, let \<open>decoded\<close> be
  the delta-decoded key: the first \<open>shared_len\<close> bytes of \<open>old\<close> without its timestamp,
  followed by the \<open>non_shared_len\<close> suffix bytes.  Whenever \<open>decoded\<close> has at least 8
  bytes and the shared bytes exist (\<open>shared_len\<close> is 0, or \<open>old\<close> has room for timestamp
  and footer and \<open>shared_len\<close> does not exceed its size without the timestamp),
  \<open>TrimAppendWithTimestamp\<close> leaves the builder holding \<open>decoded\<close> with \<open>ts_sz\<close> zero
  bytes inserted once, immediately before its last 8 bytes: the user key of the result
  is the user key of \<open>decoded\<close> followed by the zero timestamp, and its footer is the
  footer of \<open>decoded\<close>.  This holds wherever the insertion offset falls: inside the
  retained user-key bytes, inside the retained footer bytes, or inside the suffix.
\<close>

theorem TrimAppendWithTimestamp_pads:
  assumes ok: "IterKey_ok k" and held: "slice_bytes k (GetKey k) = Inr old"
    and ik: "\<not> IsUserKey k" and nl: "non_shared_len \<le> length d"
    and total: "8 \<le> shared_len + non_shared_len"
    and sh: "shared_len = 0 \<or>
             (8 + ts_sz \<le> key_size_' k \<and> shared_len \<le> key_size_' k - ts_sz)"
    and dec: "decoded = take shared_len (StripTimestampFromInternalKey old ts_sz) @
                take non_shared_len d"
  shows "\<exists>k'. TrimAppendWithTimestamp k shared_len (Extern d) non_shared_len ts_sz = Inr k' \<and>
     IterKey_ok k' \<and> \<not> IsKeyPinned k' \<and> \<not> IsUserKey k' \<and>
     slice_bytes k' (GetKey k') = Inr (PadInternalKeyWithMinTimestamp decoded ts_sz) \<and>
     PadInternalKeyWithMinTimestamp decoded ts_sz =
       take (length decoded - 8) decoded @ replicate ts_sz 0 @
       drop (length decoded - 8) decoded \<and>
     ExtractUserKey (PadInternalKeyWithMinTimestamp decoded ts_sz) =
       Inr (take (length decoded - 8) decoded @ replicate ts_sz 0) \<and>
     ExtractInternalKeyFooter (PadInternalKeyWithMinTimestamp decoded ts_sz) =
       ExtractInternalKeyFooter decoded"
proof -
  define U where "U = size_sub (key_size_' k) 8"
  define su where "su = min shared_len (size_sub U ts_sz)"
  define si where "si = size_sub shared_len su"
  define p1 where "p1 = take su old"
  define p2 where "p2 = take si (drop U old)"
  define p3 where "p3 = take non_shared_len d"
  have len_old: "length old = key_size_' k"
    using held_key [OF ok] held by auto
  have facts: "su \<le> key_size_' k \<and> (si = 0 \<or> U + si \<le> key_size_' k) \<and>
      su + si = shared_len \<and> p1 @ p2 = take shared_len (StripTimestampFromInternalKey old ts_sz)"
    using sh
  proof
    assume "shared_len = 0"
    then show ?thesis
      by (simp add: su_def si_def p1_def p2_def size_sub_def)
  next
    assume a: "8 + ts_sz \<le> key_size_' k \<and> shared_len \<le> key_size_' k - ts_sz"
    then have Uv: "U = key_size_' k - 8" and Sv: "size_sub U ts_sz = key_size_' k - 8 - ts_sz"
      by (auto simp add: U_def size_sub_def)
    have suv: "su = min shared_len (key_size_' k - 8 - ts_sz)"
      by (simp add: su_def Sv)
    have siv: "si = shared_len - su"
      by (simp add: si_def size_sub_def suv)
    show ?thesis
    proof (cases "shared_len \<le> key_size_' k - 8 - ts_sz")
      case True
      then show ?thesis
        using a len_old
        by (simp add: suv siv p1_def p2_def
            StripTimestampFromInternalKey_def kNumInternalBytes_def)
    next
      case False
      then show ?thesis
        using a len_old
        by (auto simp add: suv siv p1_def p2_def Uv min_def
            StripTimestampFromInternalKey_def kNumInternalBytes_def)
    qed
  qed
  then have su_ok: "su \<le> key_size_' k" and si_ok: "si = 0 \<or> U + si \<le> key_size_' k"
    and sum: "su + si = shared_len"
    and p12: "p1 @ p2 = take shared_len (StripTimestampFromInternalKey old ts_sz)"
    by simp_all
  have lens: "length p1 = su" "length p2 = si" "length p3 = non_shared_len"
    using su_ok si_ok len_old nl by (auto simp add: p1_def p2_def p3_def)
  have decoded: "decoded = p1 @ p2 @ p3"
    using dec p12 by (simp add: p3_def)
  have len_dec: "length decoded = shared_len + non_shared_len"
    using decoded lens sum by simp
  have call: "TrimAppendWithTimestamp k shared_len (Extern d) non_shared_len ts_sz =
      SetKey k \<lparr>data_' = Extern (PadInternalKeyWithMinTimestamp decoded ts_sz),
                size_' = length (PadInternalKeyWithMinTimestamp decoded ts_sz)\<rparr> True"
  proof -
    consider (prefix) "si + non_shared_len < 8"
      | (footer) "8 \<le> si + non_shared_len" "non_shared_len < 8"
      | (suffix) "8 \<le> non_shared_len"
      by linarith
    then show ?thesis
    proof cases
      case prefix
      let ?left = "shared_len + non_shared_len - 8"
      have "PadInternalKeyWithMinTimestamp decoded ts_sz =
          take ?left old @ replicate ts_sz 0 @ take (su - ?left) (drop ?left old) @
          take si (drop U old) @ take non_shared_len d"
      proof -
        have le: "?left \<le> su"
          using prefix sum by simp
        have eq: "su - ?left = su + 8 - (shared_len + non_shared_len)"
          using total by simp
        show ?thesis
          using pad_in_prefix [OF lens, of ?left ts_sz] prefix total sum le
          by (simp add: decoded p1_def p2_def p3_def drop_take min_absorb2 eq)
      qed
      then show ?thesis
        using TrimAppendWithTimestamp_in_prefix [OF ok held ik nl U_def [symmetric]
            su_def [symmetric] si_def [symmetric] total refl prefix su_ok si_ok sum]
        by simp
    next
      case footer
      let ?left = "si + non_shared_len - 8"
      have "PadInternalKeyWithMinTimestamp decoded ts_sz =
          take su old @ take ?left (drop U old) @ replicate ts_sz 0 @
          take (si - ?left) (drop (U + ?left) old) @ take non_shared_len d"
      proof -
        have le: "?left \<le> si"
          using footer by simp
        show ?thesis
          using pad_in_footer [OF lens, of ?left ts_sz] footer le
          by (simp add: decoded p1_def p2_def p3_def drop_take min_absorb2 add.commute)
      qed
      then show ?thesis
        using TrimAppendWithTimestamp_in_footer [OF ok held ik nl U_def [symmetric]
            su_def [symmetric] si_def [symmetric] refl footer su_ok si_ok sum]
        by simp
    next
      case suffix
      let ?left = "non_shared_len - 8"
      have "PadInternalKeyWithMinTimestamp decoded ts_sz =
          take su old @ take si (drop U old) @ take ?left d @ replicate ts_sz 0 @
          take (non_shared_len - ?left) (drop ?left d)"
      proof -
        have le: "?left \<le> non_shared_len"
          by simp
        show ?thesis
          using pad_in_suffix [OF lens, of ?left ts_sz] suffix le
          by (simp add: decoded p1_def p2_def p3_def drop_take min_absorb2)
      qed
      then show ?thesis
        using TrimAppendWithTimestamp_in_suffix [OF ok held ik nl U_def [symmetric]
            su_def [symmetric] si_def [symmetric] refl suffix su_ok si_ok]
        by simp
    qed
  qed
  have pad: "PadInternalKeyWithMinTimestamp decoded ts_sz =
       take (length decoded - 8) decoded @ replicate ts_sz 0 @
       drop (length decoded - 8) decoded"
    by (simp add: PadInternalKeyWithMinTimestamp_def kNumInternalBytes_def)
  have len8: "8 \<le> length decoded"
    using len_dec total by simp
  have uk: "ExtractUserKey (PadInternalKeyWithMinTimestamp decoded ts_sz) =
       Inr (take (length decoded - 8) decoded @ replicate ts_sz 0)"
    using len8 by (simp add: pad ExtractUserKey_def kNumInternalBytes_def)
  have ft: "ExtractInternalKeyFooter (PadInternalKeyWithMinTimestamp decoded ts_sz) =
       ExtractInternalKeyFooter decoded"
    using len8 by (simp add: pad ExtractInternalKeyFooter_def kNumInternalBytes_def
        DecodeFixed64_at_def read_at_ok)
  show ?thesis
    using SetKey_copy [OF ok, of "PadInternalKeyWithMinTimestamp decoded ts_sz"] ik
    unfolding call [symmetric]
    using pad uk ft by (auto simp add: IsUserKey_def)
qed

theorem TrimAppendWithTimestamp_pads_witness:
  "IterKey_ok
     (IterKey_new\<lparr>key_size_' := 12, is_user_key_' := False,
        memory := (memory IterKey_new)
          (Space := [0x61, 0x62, 0, 0, 1, 5, 0, 0, 0, 0, 0, 0] @ replicate 27 0)\<rparr>) \<and>
   \<not> IsUserKey
     (IterKey_new\<lparr>key_size_' := 12, is_user_key_' := False,
        memory := (memory IterKey_new)
          (Space := [0x61, 0x62, 0, 0, 1, 5, 0, 0, 0, 0, 0, 0] @ replicate 27 0)\<rparr>) \<and>
   and_then
     (TrimAppendWithTimestamp
        (IterKey_new\<lparr>key_size_' := 12, is_user_key_' := False,
           memory := (memory IterKey_new)
             (Space := [0x61, 0x62, 0, 0, 1, 5, 0, 0, 0, 0, 0, 0] @ replicate 27 0)\<rparr>)
        3 (Extern [6, 0, 0, 0, 0, 0]) 6 2)
     (\<lambda>k'. slice_bytes k' (GetKey k')) = Inr [0x61, 0, 0, 0x62, 1, 6, 0, 0, 0, 0, 0] \<and>
   and_then
     (TrimAppendWithTimestamp
        (IterKey_new\<lparr>key_size_' := 12, is_user_key_' := False,
           memory := (memory IterKey_new)
             (Space := [0x61, 0x62, 0, 0, 1, 5, 0, 0, 0, 0, 0, 0] @ replicate 27 0)\<rparr>)
        2 (Extern [1, 6, 0, 0, 0, 0, 0, 0]) 8 2)
     (\<lambda>k'. slice_bytes k' (GetKey k')) = Inr [0x61, 0x62, 0, 0, 1, 6, 0, 0, 0, 0, 0, 0] \<and>
   and_then
     (TrimAppendWithTimestamp
        (IterKey_new\<lparr>key_size_' := 12, is_user_key_' := False,
           memory := (memory IterKey_new)
             (Space := [0x61, 0x62, 0, 0, 1, 5, 0, 0, 0, 0, 0, 0] @ replicate 27 0)\<rparr>)
        1 (Extern [0x63, 1, 6, 0, 0, 0, 0, 0, 0]) 9 2)
     (\<lambda>k'. slice_bytes k' (GetKey k')) = Inr [0x61, 0x63, 0, 0, 1, 6, 0, 0, 0, 0, 0, 0]"
proof -
  let ?k = "IterKey_new\<lparr>key_size_' := 12, is_user_key_' := False,
        memory := (memory IterKey_new)
          (Space := [0x61, 0x62, 0, 0, 1, 5, 0, 0, 0, 0, 0, 0] @ replicate 27 0)\<rparr>"
  let ?old = "[0x61, 0x62, 0, 0, 1, 5, 0, 0, 0, 0, 0, 0] :: bytes"
  have ok: "IterKey_ok ?k"
    by (simp add: IterKey_ok_def IterKey_new_def space_def)
  have ik: "\<not> IsUserKey ?k"
    by (simp add: IsUserKey_def)
  have held: "slice_bytes ?k (GetKey ?k) = Inr ?old"
    by (simp add: slice_bytes_def GetKey_def IterKey_new_def space_def read_at_def)
  have strip: "StripTimestampFromInternalKey ?old 2 = [0x61, 0x62, 1, 5, 0, 0, 0, 0, 0, 0]"
    by (simp add: StripTimestampFromInternalKey_def kNumInternalBytes_def)
  have rep: "replicate 2 (0 :: byte) = [0, 0]"
    by (simp add: numeral_2_eq_2)
  have a: "and_then (TrimAppendWithTimestamp ?k 3 (Extern [6, 0, 0, 0, 0, 0]) 6 2)
      (\<lambda>k'. slice_bytes k' (GetKey k')) = Inr [0x61, 0, 0, 0x62, 1, 6, 0, 0, 0, 0, 0]"
    using TrimAppendWithTimestamp_pads [OF ok held ik _ _ _ refl,
        of 6 "[6, 0, 0, 0, 0, 0]" 3 2]
    by (auto simp add: strip PadInternalKeyWithMinTimestamp_def kNumInternalBytes_def rep)
  have b: "and_then (TrimAppendWithTimestamp ?k 2 (Extern [1, 6, 0, 0, 0, 0, 0, 0]) 8 2)
      (\<lambda>k'. slice_bytes k' (GetKey k')) = Inr [0x61, 0x62, 0, 0, 1, 6, 0, 0, 0, 0, 0, 0]"
    using TrimAppendWithTimestamp_pads [OF ok held ik _ _ _ refl,
        of 8 "[1, 6, 0, 0, 0, 0, 0, 0]" 2 2]
    by (auto simp add: strip PadInternalKeyWithMinTimestamp_def kNumInternalBytes_def rep)
  have c: "and_then (TrimAppendWithTimestamp ?k 1 (Extern [0x63, 1, 6, 0, 0, 0, 0, 0, 0]) 9 2)
      (\<lambda>k'. slice_bytes k' (GetKey k')) = Inr [0x61, 0x63, 0, 0, 1, 6, 0, 0, 0, 0, 0, 0]"
    using TrimAppendWithTimestamp_pads [OF ok held ik _ _ _ refl,
        of 9 "[0x63, 1, 6, 0, 0, 0, 0, 0, 0]" 1 2]
    by (auto simp add: strip PadInternalKeyWithMinTimestamp_def kNumInternalBytes_def rep)
  show ?thesis
    using ok ik a b c by simp
qed

end
